theory Spec2Isabelle
  imports Complex_Main
begin

section \<open>The matching pipeline of examples/libriheavy/matching.py\<close>

text \<open>
  The program reads a manifest of cuts (recordings with recognition results and the path
  of a reference book), groups them into batches, builds one sourced text per batch
  (\<open>load_data\<close>), aligns and splits it with the textsearch library (\<open>align\<close>,
  \<open>split\<close>) and writes one new cut per segment (\<open>write\<close>).

  Conventions of the embedding.
  \<^item> Exceptions are values: a function that can raise returns \<open>error + 'a\<close>.
  \<^item> Logging and file opening are recorded in a trace of events, returned next to the
    result, so that "with a warning" and "opens the file once" are statements about a value.
  \<^item> Python floats (timestamps, durations) are only copied by this program, never computed
    with; they are modelled as \<open>real\<close>.
  \<^item> The manifest is taken well-formed for its type: every cut has a \<open>text_path\<close> and a
    recording, every supervision has \<open>alignment["symbol"]\<close>. A path for which
    \<open>os.path.isfile\<close> holds can be opened and read.
\<close>

subsection \<open>Errors, events, strings\<close>

datatype error = IndexError | KeyError | FileNotFoundError | AssertionError

datatype level = DEBUG | INFO | WARNING

datatype event = Log level string | Open_file string

definition digit_char :: "nat \<Rightarrow> char" where
  "digit_char d = char_of (48 + d)"

text \<open>Python's \<open>str(n)\<close> for a non-negative integer: its decimal digits.\<close>

fun str_nat :: "nat \<Rightarrow> string" where
  "str_nat n = (if n < 10 then [digit_char n] else str_nat (n div 10) @ [digit_char (n mod 10)])"

declare str_nat.simps [simp del]

definition str_int :: "int \<Rightarrow> string" where
  "str_int i = (if i < 0 then CHR ''-'' # str_nat (nat (- i)) else str_nat (nat i))"

subsection \<open>Cuts, supervisions, segments\<close>

type_synonym token = nat

record alignment_item =
  ali_symbol :: string
  ali_start :: real

text \<open>The \<open>custom\<close> dict that \<open>write\<close> attaches to a supervision.\<close>

record custom_fields =
  texts :: "string list"
  pre_texts :: "string list"
  post_texts :: "string list"
  custom_begin_byte :: nat
  custom_end_byte :: nat

text \<open>
  \<open>sup_alignment\<close> is \<open>alignment["symbol"]\<close>; the supervisions that \<open>write\<close> builds
  pass no alignment and carry the empty list here.
\<close>

record supervision_segment =
  sup_id :: string
  sup_recording_id :: string
  sup_start :: real
  sup_duration :: real
  sup_channel :: nat
  sup_language :: "string option"
  sup_speaker :: "string option"
  sup_alignment :: "alignment_item list"
  sup_custom :: "custom_fields option"

record recording =
  rec_id :: string

record mono_cut =
  cut_id :: string
  cut_start :: real
  cut_duration :: real
  cut_channel :: nat
  cut_supervisions :: "supervision_segment list"
  cut_recording :: recording
  cut_text_path :: string

text \<open>A segment as \<open>split\<close> documents it (the dict returned by the splitter).\<close>

record segment =
  begin_byte :: nat
  end_byte :: nat
  start_time :: real
  duration :: real
  hyp :: string
  ref :: string
  pre_ref :: string
  pre_hyp :: string
  post_ref :: string
  post_hyp :: string

type_synonym cut_index = "nat \<times> nat"

type_synonym split_results = "(cut_index \<times> segment list) list"

subsection \<open>Parameters\<close>

record params =
  use_utf8 :: bool
  is_bpe :: bool
  use_uppercase :: bool
  has_punctuation :: bool
  num_close_matches :: int
  segment_length :: int
  reference_length_difference :: real
  min_matched_query_ratio :: real
  preceding_context_length :: int
  timestamp_position :: string
  silence_length_to_break :: real
  min_duration :: real
  max_duration :: real
  expected_duration :: "real \<times> real"
  max_error_rate :: real
  batch_size :: int

text \<open>\<open>get_params\<close>, with the command line's \<open>--batch-size\<close> (default 50) merged in.\<close>

definition get_params :: "int \<Rightarrow> params" where
  "get_params bs =
     \<lparr>use_utf8 = False, is_bpe = True, use_uppercase = True, has_punctuation = True,
      num_close_matches = 2, segment_length = 5000,
      reference_length_difference = 1 / 10, min_matched_query_ratio = 33 / 100,
      preceding_context_length = 1000, timestamp_position = ''current'',
      silence_length_to_break = 45 / 100, min_duration = 2, max_duration = 30,
      expected_duration = (5, 20), max_error_rate = 20 / 100, batch_size = bs\<rparr>"

subsection \<open>The textsearch library\<close>

text \<open>
  The package \<open>textsearch\<close> is imported by matching.py and is not among the source files.
  Its data types are modelled from the spec: a document is a sequence of tokens, a sourced
  text is the concatenation of documents with a boundary table.
\<close>

text \<open>Modelled from the spec: the class Transcript (a query document: tokens with times).\<close>

record transcript =
  tr_name :: string
  tr_binary_text :: "token list"
  tr_times :: "real list"

text \<open>Modelled from the spec: the class TextSource (a reference document).\<close>

record text_source =
  ts_name :: string
  ts_binary_text :: "token list"

text \<open>Modelled from the spec: a document is a query document or a reference document.\<close>

datatype source = Query transcript | Book text_source

text \<open>
  Modelled from the spec: the class SourcedText. \<open>st_pos\<close> is the position of each token
  in its own document, \<open>st_doc_splits\<close> the boundary table.
\<close>

record sourced_text =
  st_binary_text :: "token list"
  st_pos :: "nat list"
  st_doc_splits :: "nat list"
  st_sources :: "source list"

text \<open>
  The functions of the library that matching.py calls, as parameters of the model: the
  theorems about \<open>load_data\<close>, \<open>process_one_batch\<close> and \<open>write\<close> hold for every
  library. \<open>'al\<close> is the type of one alignment, which this program only passes on.
\<close>

record 'al textsearch =
  from_dict :: "string \<Rightarrow> string list \<Rightarrow> real list \<Rightarrow> bool \<Rightarrow> bool \<Rightarrow> transcript"
  from_str :: "string \<Rightarrow> string \<Rightarrow> bool \<Rightarrow> bool \<Rightarrow> text_source"
  texts_to_sourced_texts :: "source list \<Rightarrow> bool \<Rightarrow> sourced_text list"
  append_texts :: "sourced_text list \<Rightarrow> sourced_text"
  filter_texts :: "sourced_text \<Rightarrow> (token \<Rightarrow> bool) \<Rightarrow> sourced_text"
  is_punctuation :: "token \<Rightarrow> bool"
  align_queries :: "sourced_text \<Rightarrow> nat \<Rightarrow> params \<Rightarrow> 'al list"
  split_aligned_queries :: "sourced_text \<Rightarrow> 'al list \<Rightarrow> cut_index list \<Rightarrow> params \<Rightarrow> split_results"

fun source_tokens :: "source \<Rightarrow> token list" where
  "source_tokens (Query t) = tr_binary_text t"
| "source_tokens (Book b) = ts_binary_text b"

text \<open>
  Modelled from the spec: texts_to_sourced_texts, which makes one sourced text per
  document, "applying uppercase normalization uniformly if configured". \<open>upper\<close> is the
  uppercase of one token.
\<close>

definition texts_to_sourced_texts_spec ::
  "(token \<Rightarrow> token) \<Rightarrow> source list \<Rightarrow> bool \<Rightarrow> sourced_text list" where
  "texts_to_sourced_texts_spec upper sources uppercase =
     map (\<lambda>s. \<lparr>st_binary_text =
                  (if uppercase then map upper (source_tokens s) else source_tokens s),
                st_pos = [0..<length (source_tokens s)],
                st_doc_splits = [0, length (source_tokens s)],
                st_sources = [s]\<rparr>) sources"

text \<open>
  Modelled from the spec: the boundary table of a concatenation, "monotonically increasing
  ... partitioning global token index ranges per document".
\<close>

fun append_splits :: "nat \<Rightarrow> sourced_text list \<Rightarrow> nat list" where
  "append_splits off [] = []"
| "append_splits off (t # ts) =
     map (\<lambda>b. off + b) (tl (st_doc_splits t))
       @ append_splits (off + length (st_binary_text t)) ts"

text \<open>Modelled from the spec: append_texts, the "offset-addressable concatenation".\<close>

definition append_texts_spec :: "sourced_text list \<Rightarrow> sourced_text" where
  "append_texts_spec ts =
     \<lparr>st_binary_text = concat (map st_binary_text ts),
      st_pos = concat (map st_pos ts),
      st_doc_splits = 0 # append_splits 0 ts,
      st_sources = concat (map st_sources ts)\<rparr>"

text \<open>
  Modelled from the spec: filter_texts, "a predicate filter that preserves positional
  mapping back to original offsets": the tokens that satisfy \<open>fn\<close> are kept with their
  positions, and each boundary moves to the number of kept tokens before it.
\<close>

definition filter_texts_spec :: "sourced_text \<Rightarrow> (token \<Rightarrow> bool) \<Rightarrow> sourced_text" where
  "filter_texts_spec t fn =
     \<lparr>st_binary_text = filter fn (st_binary_text t),
      st_pos = map snd (filter (\<lambda>cp. fn (fst cp)) (zip (st_binary_text t) (st_pos t))),
      st_doc_splits = map (\<lambda>b. length (filter fn (take b (st_binary_text t)))) (st_doc_splits t),
      st_sources = st_sources t\<rparr>"

subsection \<open>The environment: files and the iteration order of a set\<close>

text \<open>
  \<open>files\<close> maps the path of each regular file to its content. Python iterates a set of
  strings in an order that depends on the hashes of its elements; \<open>order_key\<close> stands for
  it: a set, kept as the list of its elements without repetition, is iterated sorted by
  this key. Every order of the elements is the order of some key.
\<close>

record environment =
  files :: "string \<Rightarrow> string option"
  order_key :: "string \<Rightarrow> nat"

definition isfile :: "environment \<Rightarrow> string \<Rightarrow> bool" where
  "isfile env path = (files env path \<noteq> None)"

definition set_add :: "string list \<Rightarrow> string \<Rightarrow> string list" where
  "set_add s x = (if x \<in> set s then s else s @ [x])"

definition set_iter :: "environment \<Rightarrow> string list \<Rightarrow> string list" where
  "set_iter env s = sort_key (order_key env) s"

subsection \<open>load_data\<close>

record load_state =
  transcripts :: "transcript list"
  transcripts_cut_index :: "cut_index list"
  book_paths :: "string list"
  num_query_tokens :: nat
  logged :: "event list"

record raw_data =
  raw_num_query_tokens :: nat
  raw_cut_indexes :: "cut_index list"
  raw_sourced_text :: sourced_text

text \<open>The body of the loop over \<open>enumerate(cut.supervisions)\<close>, for cut number \<open>i\<close>.\<close>

definition load_supervision ::
  "'al textsearch \<Rightarrow> params \<Rightarrow> nat \<Rightarrow> load_state \<Rightarrow> nat \<times> supervision_segment \<Rightarrow> load_state" where
  "load_supervision lib ps i st js =
     (let j = fst js; s = snd js;
          text_list = map ali_symbol (sup_alignment s);
          begin_times_list = map ali_start (sup_alignment s)
      in if text_list \<noteq> [] then
           let t = from_dict lib (sup_id s) text_list begin_times_list (use_utf8 ps) (is_bpe ps)
           in st\<lparr>num_query_tokens := num_query_tokens st + length (tr_binary_text t),
                 transcripts := transcripts st @ [t],
                 transcripts_cut_index := transcripts_cut_index st @ [(i, j)]\<rparr>
         else st)"

definition skip_message :: "int \<Rightarrow> mono_cut \<Rightarrow> string" where
  "skip_message worker_index c =
     ''Worker['' @ str_int worker_index @ ''] Skipping '' @ cut_id c
       @ '' due to missing of reference book''"

text \<open>The body of the loop over \<open>enumerate(batch_cuts)\<close>.\<close>

definition load_cut ::
  "'al textsearch \<Rightarrow> environment \<Rightarrow> params \<Rightarrow> int \<Rightarrow> load_state \<Rightarrow> nat \<times> mono_cut \<Rightarrow> load_state" where
  "load_cut lib env ps worker_index st ic =
     (let i = fst ic; c = snd ic
      in if \<not> isfile env (cut_text_path c) then
           st\<lparr>logged := logged st @ [Log WARNING (skip_message worker_index c)]\<rparr>
         else
           let st' = foldl (load_supervision lib ps i) st (enumerate 0 (cut_supervisions c))
           in st'\<lparr>book_paths := set_add (book_paths st') (cut_text_path c)\<rparr>)"

definition initial_state :: "int \<Rightarrow> load_state" where
  "initial_state worker_index =
     \<lparr>transcripts = [], transcripts_cut_index = [], book_paths = [], num_query_tokens = 0,
      logged = [Log DEBUG (''Worker['' @ str_int worker_index @ ''] loading cuts and books'')]\<rparr>"

text \<open>The first loop of \<open>load_data\<close>, over the enumerated cuts \<open>ics\<close>.\<close>

definition load_cuts ::
  "'al textsearch \<Rightarrow> environment \<Rightarrow> params \<Rightarrow> int \<Rightarrow> (nat \<times> mono_cut) list \<Rightarrow> load_state" where
  "load_cuts lib env ps worker_index ics =
     foldl (load_cut lib env ps worker_index) (initial_state worker_index) ics"

text \<open>
  The second loop: every path of the set is opened, read and turned into a book. The
  result carries the books and the files opened, in order.
\<close>

fun load_books ::
  "'al textsearch \<Rightarrow> environment \<Rightarrow> params \<Rightarrow> string list \<Rightarrow> text_source list \<Rightarrow> event list
     \<Rightarrow> error + (text_source list \<times> event list)" where
  "load_books lib env ps [] books opened = Inr (books, opened)"
| "load_books lib env ps (book_path # rest) books opened =
     (case files env book_path of
        None \<Rightarrow> Inl FileNotFoundError
      | Some book_text \<Rightarrow>
          load_books lib env ps rest
            (books @ [from_str lib book_path book_text (use_utf8 ps) (has_punctuation ps)])
            (opened @ [Open_file book_path]))"

definition is_not_punc :: "'al textsearch \<Rightarrow> token \<Rightarrow> bool" where
  "is_not_punc lib c = (\<not> is_punctuation lib c)"

text \<open>The construction of the sourced text from the transcripts and the books.\<close>

definition build_sourced_text ::
  "'al textsearch \<Rightarrow> params \<Rightarrow> transcript list \<Rightarrow> text_source list \<Rightarrow> sourced_text" where
  "build_sourced_text lib ps ts books =
     (let sourced_transcript_lists = texts_to_sourced_texts lib (map Query ts) (use_uppercase ps);
          sourced_transcripts = append_texts lib sourced_transcript_lists;
          sourced_book_list = texts_to_sourced_texts lib (map Book books) (use_uppercase ps);
          sourced_books = append_texts lib sourced_book_list;
          sourced_books' = filter_texts lib sourced_books (is_not_punc lib)
      in append_texts lib [sourced_transcripts, sourced_books'])"

text \<open>
  What follows the two loops: the empty dict (\<open>None\<close>) when there is no transcript, else
  the sourced text and the assertion on the boundary table.
\<close>

definition finish_load ::
  "'al textsearch \<Rightarrow> params \<Rightarrow> int \<Rightarrow> load_state \<Rightarrow> text_source list \<Rightarrow> event list
     \<Rightarrow> event list \<times> (error + raw_data option)" where
  "finish_load lib ps worker_index st books ev =
     (if transcripts st = [] then (ev, Inr None)
      else
        let ev1 = ev @ [Log DEBUG (''Worker['' @ str_int worker_index @ ''] loading cuts and books done.'')];
            sourced = build_sourced_text lib ps (transcripts st) books;
            ev2 = ev1 @ [Log DEBUG (''Worker['' @ str_int worker_index @ ''] construct sourced_text done.'')]
        in if length (transcripts st) < length (st_doc_splits sourced) then
             if num_query_tokens st = st_doc_splits sourced ! length (transcripts st) then
               (ev2, Inr (Some \<lparr>raw_num_query_tokens = num_query_tokens st,
                                raw_cut_indexes = transcripts_cut_index st,
                                raw_sourced_text = sourced\<rparr>))
             else (ev2, Inl AssertionError)
           else (ev2, Inl IndexError))"

text \<open>\<open>load_data\<close> on the enumerated cuts.\<close>

definition load_data_from ::
  "'al textsearch \<Rightarrow> environment \<Rightarrow> params \<Rightarrow> (nat \<times> mono_cut) list \<Rightarrow> int
     \<Rightarrow> event list \<times> (error + raw_data option)" where
  "load_data_from lib env ps ics worker_index =
     (let st = load_cuts lib env ps worker_index ics
      in case load_books lib env ps (set_iter env (book_paths st)) [] [] of
           Inl e \<Rightarrow> (logged st, Inl e)
         | Inr (books, opened) \<Rightarrow> finish_load lib ps worker_index st books (logged st @ opened))"

definition load_data ::
  "'al textsearch \<Rightarrow> environment \<Rightarrow> params \<Rightarrow> mono_cut list \<Rightarrow> int
     \<Rightarrow> event list \<times> (error + raw_data option)" where
  "load_data lib env ps batch_cuts worker_index =
     load_data_from lib env ps (enumerate 0 batch_cuts) worker_index"

subsection \<open>align and split\<close>

definition align ::
  "'al textsearch \<Rightarrow> params \<Rightarrow> nat \<Rightarrow> sourced_text \<Rightarrow> int \<Rightarrow> event list \<times> 'al list" where
  "align lib ps n sourced worker_index =
     ([Log DEBUG (''Worker['' @ str_int worker_index @ ''] Aligning queries.''),
       Log DEBUG (''Worker['' @ str_int worker_index @ ''] Aligning queries done.'')],
      align_queries lib sourced n ps)"

definition split ::
  "'al textsearch \<Rightarrow> params \<Rightarrow> sourced_text \<Rightarrow> 'al list \<Rightarrow> cut_index list \<Rightarrow> int
     \<Rightarrow> event list \<times> split_results" where
  "split lib ps sourced alignments cut_indexes worker_index =
     ([Log DEBUG (''Worker['' @ str_int worker_index @ ''] Splitting aligned query.''),
       Log DEBUG (''Worker['' @ str_int worker_index @ ''] Splitting aligned query done.'')],
      split_aligned_queries lib sourced alignments cut_indexes ps)"

subsection \<open>write\<close>

text \<open>The supervision and the cut that \<open>write\<close> builds for one segment.\<close>

definition new_supervision :: "mono_cut \<Rightarrow> supervision_segment \<Rightarrow> string \<Rightarrow> segment \<Rightarrow> supervision_segment" where
  "new_supervision current_cut s ident seg =
     \<lparr>sup_id = ident,
      sup_recording_id = rec_id (cut_recording current_cut),
      sup_start = 0,
      sup_duration = duration seg,
      sup_channel = sup_channel s,
      sup_language = sup_language s,
      sup_speaker = sup_speaker s,
      sup_alignment = [],
      sup_custom = Some
        \<lparr>texts = [ref seg, hyp seg],
         pre_texts = [pre_ref seg, pre_hyp seg],
         post_texts = [post_ref seg, post_ref seg],
         custom_begin_byte = begin_byte seg,
         custom_end_byte = end_byte seg\<rparr>\<rparr>"

definition make_cut :: "mono_cut \<Rightarrow> nat \<Rightarrow> string \<Rightarrow> segment \<Rightarrow> mono_cut" where
  "make_cut current_cut j ident seg =
     \<lparr>cut_id = ident,
      cut_start = start_time seg,
      cut_duration = duration seg,
      cut_channel = cut_channel current_cut,
      cut_supervisions =
        [new_supervision current_cut (cut_supervisions current_cut ! j) ident seg],
      cut_recording = cut_recording current_cut,
      cut_text_path = cut_text_path current_cut\<rparr>"

text \<open>
  Building the cut reads \<open>current_cut.supervisions[cut_indexes[1]]\<close>, which raises
  IndexError when the supervision index is out of range.
\<close>

definition new_cut :: "mono_cut \<Rightarrow> nat \<Rightarrow> string \<Rightarrow> segment \<Rightarrow> error + mono_cut" where
  "new_cut current_cut j ident seg =
     (if j < length (cut_supervisions current_cut) then Inr (make_cut current_cut j ident seg)
      else Inl IndexError)"

text \<open>The loop over the segments of one result item; \<open>idx\<close> is \<open>cut_segment_index\<close>.\<close>

fun write_segments ::
  "mono_cut \<Rightarrow> nat \<Rightarrow> segment list \<Rightarrow> (string \<Rightarrow> nat option) \<Rightarrow> mono_cut list
     \<Rightarrow> error + ((string \<Rightarrow> nat option) \<times> mono_cut list)" where
  "write_segments current_cut j [] idx cut_list = Inr (idx, cut_list)"
| "write_segments current_cut j (seg # segs) idx cut_list =
     (case idx (cut_id current_cut) of
        None \<Rightarrow> Inl KeyError
      | Some n \<Rightarrow>
          (case new_cut current_cut j (cut_id current_cut @ ''_'' @ str_nat n) seg of
             Inl e \<Rightarrow> Inl e
           | Inr c \<Rightarrow>
               write_segments current_cut j segs
                 (idx(cut_id current_cut \<mapsto> n + 1)) (cut_list @ [c])))"

text \<open>The loop over the results.\<close>

fun write_items ::
  "mono_cut list \<Rightarrow> split_results \<Rightarrow> (string \<Rightarrow> nat option) \<Rightarrow> mono_cut list
     \<Rightarrow> error + mono_cut list" where
  "write_items batch_cuts [] idx cut_list = Inr cut_list"
| "write_items batch_cuts (item # results) idx cut_list =
     (let cut_indexes = fst item; segments = snd item
      in if fst cut_indexes < length batch_cuts then
           let current_cut = batch_cuts ! fst cut_indexes;
               idx' = (if idx (cut_id current_cut) = None
                       then idx(cut_id current_cut \<mapsto> 0) else idx)
           in case write_segments current_cut (snd cut_indexes) segments idx' cut_list of
                Inl e \<Rightarrow> Inl e
              | Inr (idx'', cut_list') \<Rightarrow> write_items batch_cuts results idx'' cut_list'
         else Inl IndexError)"

text \<open>
  The writer is the list of the records written so far, each with the flush flag of its
  call. The cuts are written after all of them have been built.
\<close>

type_synonym cuts_writer = "(mono_cut \<times> bool) list"

text \<open>
  The segments of the results in the order in which the two loops of \<open>write\<close> visit
  them, each with the cut index of its item.
\<close>

definition produced :: "split_results \<Rightarrow> (cut_index \<times> segment) list" where
  "produced results = concat (map (\<lambda>item. map (\<lambda>seg. (fst item, seg)) (snd item)) results)"

definition new_cuts :: "mono_cut list \<Rightarrow> split_results \<Rightarrow> error + mono_cut list" where
  "new_cuts batch_cuts results = write_items batch_cuts results Map.empty []"

text \<open>\<open>write\<close> of the source (the name is a keyword of Isabelle).\<close>

definition write_cuts ::
  "mono_cut list \<Rightarrow> split_results \<Rightarrow> cuts_writer \<Rightarrow> event list \<times> (error + cuts_writer)" where
  "write_cuts batch_cuts results writer =
     (case new_cuts batch_cuts results of
        Inl e \<Rightarrow> ([], Inl e)
      | Inr cut_list \<Rightarrow>
          ([Log DEBUG ''Writing results.'', Log DEBUG ''Write results done.''],
           Inr (writer @ map (\<lambda>ic. (snd ic, int (fst ic) = int (length cut_list) - 1))
                             (enumerate 0 cut_list))))"

subsection \<open>process_one_batch and main\<close>

definition process_one_batch ::
  "'al textsearch \<Rightarrow> environment \<Rightarrow> params \<Rightarrow> mono_cut list \<Rightarrow> cuts_writer
     \<Rightarrow> event list \<times> (error + cuts_writer)" where
  "process_one_batch lib env ps batch_cuts writer =
     (case load_data lib env ps batch_cuts 0 of
        (ev1, Inl e) \<Rightarrow> (ev1, Inl e)
      | (ev1, Inr None) \<Rightarrow> (ev1 @ [Log WARNING ''Raw data is empty.''], Inr writer)
      | (ev1, Inr (Some raw)) \<Rightarrow>
          (case align lib ps (raw_num_query_tokens raw) (raw_sourced_text raw) 0 of
             (ev2, aligned_data) \<Rightarrow>
               if length aligned_data = 0 then
                 (ev1 @ ev2 @ [Log WARNING ''Aligned data is empty.''], Inr writer)
               else
                 (case split lib ps (raw_sourced_text raw) aligned_data (raw_cut_indexes raw) 0 of
                    (ev3, splited_data) \<Rightarrow>
                      if length splited_data = 0 then
                        (ev1 @ ev2 @ ev3 @ [Log WARNING ''Splitted data is empty.''], Inr writer)
                      else
                        (case write_cuts batch_cuts splited_data writer of
                           (ev4, r) \<Rightarrow> (ev1 @ ev2 @ ev3 @ ev4, r)))))"

text \<open>
  The loop of \<open>main\<close> over \<open>enumerate(raw_cuts)\<close>, for any way \<open>process\<close> of processing
  one batch. It returns the batch left at the end of the stream.
\<close>

fun main_loop ::
  "('c list \<Rightarrow> 'w \<Rightarrow> event list \<times> (error + 'w)) \<Rightarrow> int \<Rightarrow> (nat \<times> 'c) list \<Rightarrow> 'c list \<Rightarrow> 'w
     \<Rightarrow> event list \<times> (error + ('c list \<times> 'w))" where
  "main_loop process bs [] batch_cuts writer = ([], Inr (batch_cuts, writer))"
| "main_loop process bs (ic # rest) batch_cuts writer =
     (if int (length batch_cuts) < bs then
        main_loop process bs rest (batch_cuts @ [snd ic]) writer
      else
        (case process batch_cuts writer of
           (ev, Inl e) \<Rightarrow> (ev, Inl e)
         | (ev, Inr writer') \<Rightarrow>
             (case main_loop process bs rest [] writer' of
                (ev', r) \<Rightarrow>
                  (ev @ [Log INFO (''Number of cuts have been loaded is '' @ str_nat (fst ic))] @ ev',
                   r))))"

text \<open>
  \<open>main\<close> with the processing of a batch as a parameter. The line that logs the
  parameters is left out of the trace.
\<close>

definition main_with ::
  "('c list \<Rightarrow> 'w \<Rightarrow> event list \<times> (error + 'w)) \<Rightarrow> int \<Rightarrow> 'c list \<Rightarrow> 'w
     \<Rightarrow> event list \<times> (error + 'w)" where
  "main_with process bs raw_cuts writer =
     (case main_loop process bs (enumerate 0 raw_cuts) [] writer of
        (ev, Inl e) \<Rightarrow> (Log INFO ''Start processing...'' # ev, Inl e)
      | (ev, Inr (batch_cuts, writer')) \<Rightarrow>
          if length batch_cuts \<noteq> 0 then
            (case process batch_cuts writer' of
               (ev', r) \<Rightarrow> (Log INFO ''Start processing...'' # ev @ ev', r))
          else (Log INFO ''Start processing...'' # ev, Inr writer'))"

definition main ::
  "'al textsearch \<Rightarrow> environment \<Rightarrow> params \<Rightarrow> mono_cut list \<Rightarrow> event list \<times> (error + cuts_writer)" where
  "main lib env ps raw_cuts =
     main_with (process_one_batch lib env ps) (batch_size ps) raw_cuts []"

text \<open>
  An observer of \<open>main\<close>'s loop: instead of processing a batch, it appends the batch to
  the list of the batches seen.
\<close>

definition record_batch :: "'c list \<Rightarrow> 'c list list \<Rightarrow> event list \<times> (error + 'c list list)" where
  "record_batch batch_cuts seen = ([], Inr (seen @ [batch_cuts]))"

definition batches_of :: "int \<Rightarrow> 'c list \<Rightarrow> error + 'c list list" where
  "batches_of bs raw_cuts = snd (main_with record_batch bs raw_cuts [])"

subsection \<open>Notions used in the statements\<close>

text \<open>The value of \<open>cut_segment_index\<close> at an id, 0 for an id that is not a key yet.\<close>

definition counter_of :: "(string \<Rightarrow> nat option) \<Rightarrow> string \<Rightarrow> nat" where
  "counter_of idx s = (case idx s of None \<Rightarrow> 0 | Some n \<Rightarrow> n)"

text \<open>For each produced segment, in order, the id of the original cut it comes from.\<close>

definition origin_ids :: "mono_cut list \<Rightarrow> split_results \<Rightarrow> string list" where
  "origin_ids batch_cuts results = map (\<lambda>p. cut_id (batch_cuts ! fst (fst p))) (produced results)"

text \<open>The files opened in a trace, in order.\<close>

definition opened_files :: "event list \<Rightarrow> string list" where
  "opened_files ev = concat (map (\<lambda>e. case e of Open_file p \<Rightarrow> [p] | Log l m \<Rightarrow> []) ev)"

text \<open>
  A batch has no usable query document: each cut has no reference file on disk or only
  supervisions with an empty alignment list.
\<close>

definition no_usable_query :: "environment \<Rightarrow> mono_cut list \<Rightarrow> bool" where
  "no_usable_query env batch_cuts =
     list_all (\<lambda>c. \<not> isfile env (cut_text_path c)
                   \<or> list_all (\<lambda>s. sup_alignment s = []) (cut_supervisions c)) batch_cuts"

text \<open>The part of the state of the first loop of \<open>load_data\<close> that is not the log.\<close>

definition core :: "load_state \<Rightarrow> transcript list \<times> cut_index list \<times> string list \<times> nat" where
  "core st = (transcripts st, transcripts_cut_index st, book_paths st, num_query_tokens st)"

text \<open>\<open>sum(len(query_document) for query_document in queries)\<close>.\<close>

definition query_tokens :: "transcript list \<Rightarrow> nat" where
  "query_tokens ts = sum_list (map (\<lambda>t. length (tr_binary_text t)) ts)"

text \<open>The query documents that \<open>load_data\<close> builds for a batch.\<close>

definition query_documents ::
  "'al textsearch \<Rightarrow> environment \<Rightarrow> params \<Rightarrow> mono_cut list \<Rightarrow> transcript list" where
  "query_documents lib env ps batch_cuts = transcripts (load_cuts lib env ps 0 (enumerate 0 batch_cuts))"

text \<open>The paths of the set \<open>book_paths\<close> after the first loop, in the order of iteration.\<close>

definition books_order ::
  "'al textsearch \<Rightarrow> environment \<Rightarrow> params \<Rightarrow> mono_cut list \<Rightarrow> string list" where
  "books_order lib env ps batch_cuts =
     set_iter env (book_paths (load_cuts lib env ps 0 (enumerate 0 batch_cuts)))"

text \<open>The counter of query tokens agrees with the transcripts collected so far.\<close>

definition counted :: "load_state \<Rightarrow> bool" where
  "counted st = (num_query_tokens st = query_tokens (transcripts st))"

subsection \<open>Concrete inputs\<close>

definition example_supervision :: supervision_segment where
  "example_supervision =
     \<lparr>sup_id = ''sup1'', sup_recording_id = ''rec1'', sup_start = 0, sup_duration = 10,
      sup_channel = 0, sup_language = Some ''English'', sup_speaker = Some ''spk'',
      sup_alignment = [\<lparr>ali_symbol = ''H'', ali_start = 0\<rparr>, \<lparr>ali_symbol = ''I'', ali_start = 1\<rparr>,
                       \<lparr>ali_symbol = ''!'', ali_start = 2\<rparr>],
      sup_custom = None\<rparr>"

definition example_cut :: mono_cut where
  "example_cut =
     \<lparr>cut_id = ''cutA'', cut_start = 0, cut_duration = 10, cut_channel = 0,
      cut_supervisions = [example_supervision], cut_recording = \<lparr>rec_id = ''rec1''\<rparr>,
      cut_text_path = ''book.txt''\<rparr>"

definition example_segment :: segment where
  "example_segment =
     \<lparr>begin_byte = 3, end_byte = 8, start_time = 1, duration = 4, hyp = ''HELLO'',
      ref = ''Hello'', pre_ref = ''pr'', pre_hyp = ''ph'', post_ref = ''R'', post_hyp = ''H''\<rparr>"

definition example_results :: split_results where
  "example_results = [((0, 0), [example_segment, example_segment]), ((0, 0), [example_segment])]"

text \<open>A cut whose reference book is not on disk.\<close>

definition missing_cut :: mono_cut where
  "missing_cut = example_cut\<lparr>cut_id := ''cutB'', cut_text_path := ''lost.txt''\<rparr>"

text \<open>
  A small instance of the library: a token is the code of a character, punctuation is
  one of \<open>! , . ?\<close>, uppercase maps \<open>a..z\<close> to \<open>A..Z\<close>; the sourced texts are built as
  the spec describes; the aligner and the splitter return nothing.
\<close>

definition example_upper :: "token \<Rightarrow> token" where
  "example_upper c = (if 97 \<le> c \<and> c \<le> 122 then c - 32 else c)"

definition example_lib :: "unit textsearch" where
  "example_lib =
     \<lparr>from_dict = (\<lambda>name text_list times utf8 bpe.
         \<lparr>tr_name = name, tr_binary_text = map of_char (concat text_list), tr_times = times\<rparr>),
      from_str = (\<lambda>name s utf8 punct. \<lparr>ts_name = name, ts_binary_text = map of_char s\<rparr>),
      texts_to_sourced_texts = texts_to_sourced_texts_spec example_upper,
      append_texts = append_texts_spec,
      filter_texts = filter_texts_spec,
      is_punctuation = (\<lambda>c. c \<in> set [33, 44, 46, 63]),
      align_queries = (\<lambda>sourced n ps. []),
      split_aligned_queries = (\<lambda>sourced alignments cut_indexes ps. [])\<rparr>"

text \<open>The same library with an \<open>append_texts\<close> that returns a wrong boundary table.\<close>

definition broken_lib :: "unit textsearch" where
  "broken_lib =
     example_lib\<lparr>append_texts := (\<lambda>ts. (append_texts_spec ts)\<lparr>st_doc_splits := [0, 0, 0]\<rparr>)\<rparr>"

text \<open>One book on disk; sets are iterated by the length of the path.\<close>

definition example_env :: environment where
  "example_env = \<lparr>files = [''book.txt'' \<mapsto> ''Hi, you.''], order_key = length\<rparr>"

text \<open>The reference documents among the sources of a sourced text, in order.\<close>

fun source_books :: "source list \<Rightarrow> text_source list" where
  "source_books [] = []"
| "source_books (Query t # ss) = source_books ss"
| "source_books (Book b # ss) = b # source_books ss"





section \<open>Properties of write\<close>

lemma write_segments_Inr:
  "write_segments cur j segs idx acc = Inr (idx', out) \<Longrightarrow> idx (cut_id cur) = Some n \<Longrightarrow>
     out = acc @ map (\<lambda>k. make_cut cur j (cut_id cur @ ''_'' @ str_nat (n + k)) (segs ! k)) [0..<length segs]
     \<and> idx' = idx(cut_id cur \<mapsto> n + length segs)
     \<and> (segs \<noteq> [] \<longrightarrow> j < length (cut_supervisions cur))"
proof (induction segs arbitrary: idx acc n)
  case Nil
  then show ?case by (auto simp: map_upd_triv)
next
  case (Cons seg segs)
  from Cons.prems have j: "j < length (cut_supervisions cur)"
    by (auto simp: new_cut_def split: if_splits)
  from Cons.prems j have rec: "write_segments cur j segs (idx(cut_id cur \<mapsto> n + 1))
        (acc @ [make_cut cur j (cut_id cur @ ''_'' @ str_nat n) seg]) = Inr (idx', out)"
    by (simp add: new_cut_def)
  have "(idx(cut_id cur \<mapsto> n + 1)) (cut_id cur) = Some (Suc n)" by simp
  from Cons.IH[OF rec this] j show ?case
    by (auto simp add: map_upt_Suc fun_eq_iff simp del: upt_Suc)
qed

lemma count_list_replicate: "count_list (replicate n x) y = (if x = y then n else 0)"
  by (induction n) auto

lemma produced_Cons: "produced (item # results) = map (\<lambda>seg. (fst item, seg)) (snd item) @ produced results"
  by (simp add: produced_def)

lemma write_items_Inr:
  "write_items batch_cuts results idx acc = Inr out \<Longrightarrow>
     length out = length acc + length (produced results) \<and> take (length acc) out = acc \<and>
     (\<forall>k < length (produced results).
        fst (fst (produced results ! k)) < length batch_cuts \<and>
        snd (fst (produced results ! k)) < length (cut_supervisions (batch_cuts ! fst (fst (produced results ! k)))) \<and>
        out ! (length acc + k) =
          make_cut (batch_cuts ! fst (fst (produced results ! k))) (snd (fst (produced results ! k)))
            (origin_ids batch_cuts results ! k @ ''_'' @
               str_nat (counter_of idx (origin_ids batch_cuts results ! k)
                        + count_list (take k (origin_ids batch_cuts results)) (origin_ids batch_cuts results ! k)))
            (snd (produced results ! k)))"
proof (induction results arbitrary: idx acc)
  case Nil
  then show ?case by (simp add: produced_def)
next
  case (Cons item results)
  obtain i j where ij: "fst item = (i, j)" by (cases "fst item")
  define segs where "segs = snd item"
  define cur where "cur = batch_cuts ! i"
  define idx1 where "idx1 = (if idx (cut_id cur) = None then idx(cut_id cur \<mapsto> 0) else idx)"
  from Cons.prems ij have i: "i < length batch_cuts"
    by (auto simp: Let_def split: if_splits)
  have "\<exists>idx2 acc2. write_segments cur j segs idx1 acc = Inr (idx2, acc2)
           \<and> write_items batch_cuts results idx2 acc2 = Inr out"
    using Cons.prems ij i unfolding cur_def segs_def idx1_def
    by (auto simp: Let_def split: sum.splits)
  then obtain idx2 acc2 where
    ws: "write_segments cur j segs idx1 acc = Inr (idx2, acc2)" and
    wi: "write_items batch_cuts results idx2 acc2 = Inr out"
    by blast
  have b1: "idx1 (cut_id cur) = Some (counter_of idx (cut_id cur))"
    by (auto simp: idx1_def counter_of_def)
  note S = write_segments_Inr[OF ws b1]
  note I = Cons.IH[OF wi]
  have base2: "counter_of idx2 s = counter_of idx s + (if s = cut_id cur then length segs else 0)" for s
    using S by (auto simp: counter_of_def idx1_def split: option.splits)
  have len2: "length acc2 = length acc + length segs" using S by simp
  have pr: "produced (item # results) = map (\<lambda>seg. ((i, j), seg)) segs @ produced results"
    by (simp add: produced_Cons ij segs_def)
  have oi: "origin_ids batch_cuts (item # results) = replicate (length segs) (cut_id cur) @ origin_ids batch_cuts results"
    by (simp add: origin_ids_def pr cur_def comp_def map_replicate_const)
  show ?case
  proof (intro conjI allI impI)
    show "length out = length acc + length (produced (item # results))"
      using I len2 by (simp add: pr)
    show "take (length acc) out = acc"
    proof -
      have "take (length acc) out = take (length acc) (take (length acc2) out)"
        by (simp add: len2 min_def)
      also have "\<dots> = take (length acc) acc2" using I by simp
      also have "\<dots> = acc" using S by simp
      finally show ?thesis .
    qed
  next
    fix k assume k: "k < length (produced (item # results))"
    show "fst (fst (produced (item # results) ! k)) < length batch_cuts"
      using k I i by (auto simp: pr nth_append)
    show "snd (fst (produced (item # results) ! k)) < length (cut_supervisions (batch_cuts ! fst (fst (produced (item # results) ! k))))"
      using k I S by (auto simp: pr nth_append cur_def)
    show "out ! (length acc + k) =
          make_cut (batch_cuts ! fst (fst (produced (item # results) ! k))) (snd (fst (produced (item # results) ! k)))
            (origin_ids batch_cuts (item # results) ! k @ ''_'' @
               str_nat (counter_of idx (origin_ids batch_cuts (item # results) ! k)
                        + count_list (take k (origin_ids batch_cuts (item # results))) (origin_ids batch_cuts (item # results) ! k)))
            (snd (produced (item # results) ! k))"
    proof (cases "k < length segs")
      case True
      have "out ! (length acc + k) = take (length acc2) out ! (length acc + k)"
        using True len2 by simp
      also have "\<dots> = acc2 ! (length acc + k)" using I by simp
      also have "\<dots> = make_cut cur j (cut_id cur @ ''_'' @ str_nat (counter_of idx (cut_id cur) + k)) (segs ! k)"
        using S True by (simp add: nth_append)
      finally show ?thesis using True
        by (simp add: pr oi nth_append cur_def count_list_replicate)
    next
      case False
      define k' where "k' = k - length segs"
      have k': "k = length segs + k'" "k' < length (produced results)"
        using False k by (auto simp: k'_def pr)
      from I k'(2) have "out ! (length acc2 + k') =
          make_cut (batch_cuts ! fst (fst (produced results ! k'))) (snd (fst (produced results ! k')))
            (origin_ids batch_cuts results ! k' @ ''_'' @
               str_nat (counter_of idx2 (origin_ids batch_cuts results ! k')
                        + count_list (take k' (origin_ids batch_cuts results)) (origin_ids batch_cuts results ! k')))
            (snd (produced results ! k'))" by blast
      then show ?thesis
        by (simp add: k'(1) len2 pr oi nth_append base2 add.assoc count_list_replicate)
    qed
  qed
qed


lemma digit_char_inj: "a < 10 \<Longrightarrow> b < 10 \<Longrightarrow> digit_char a = digit_char b \<Longrightarrow> a = b"
proof -
  assume a: "a < 10" and b: "b < 10" and e: "digit_char a = digit_char b"
  have "of_char (char_of (48 + a) :: char) = (48 + a)" "of_char (char_of (48 + b) :: char) = (48 + b)"
    using a b by simp_all
  with e show "a = b" by (simp add: digit_char_def)
qed

lemma str_nat_small: "n < 10 \<Longrightarrow> str_nat n = [digit_char n]"
  by (simp add: str_nat.simps)

lemma str_nat_big: "\<not> n < 10 \<Longrightarrow> str_nat n = str_nat (n div 10) @ [digit_char (n mod 10)]"
  by (subst str_nat.simps) simp

lemma str_nat_nonempty: "str_nat n \<noteq> []"
  by (cases "n < 10") (simp_all add: str_nat_small str_nat_big)

lemma str_nat_inj: "str_nat m = str_nat n \<Longrightarrow> m = n"
proof (induction m arbitrary: n rule: less_induct)
  case (less m)
  show ?case
  proof (cases "m < 10")
    case True
    show ?thesis
    proof (cases "n < 10")
      case True
      with \<open>m < 10\<close> less.prems show ?thesis
        by (auto simp: str_nat_small dest: digit_char_inj)
    next
      case False
      with \<open>m < 10\<close> less.prems show ?thesis
        using str_nat_nonempty[of "n div 10"] by (simp add: str_nat_small str_nat_big)
    qed
  next
    case False
    show ?thesis
    proof (cases "n < 10")
      case True
      with False less.prems show ?thesis
        using str_nat_nonempty[of "m div 10"] by (simp add: str_nat_small str_nat_big)
    next
      case nbig: False
      from False nbig less.prems have e: "str_nat (m div 10) = str_nat (n div 10)"
        and d: "digit_char (m mod 10) = digit_char (n mod 10)"
        by (simp_all add: str_nat_big)
      have "m div 10 < m" using False by simp
      from less.IH[OF this e] have "m div 10 = n div 10" .
      moreover from d have "m mod 10 = n mod 10"
        using digit_char_inj[of "m mod 10" "n mod 10"] by simp
      ultimately show ?thesis by (metis div_mult_mod_eq)
    qed
  qed
qed

lemma write_cuts_Inr:
  assumes "write_cuts batch_cuts results writer = (ev, Inr writer')"
  shows "\<exists>cut_list. new_cuts batch_cuts results = Inr cut_list
           \<and> length writer' = length writer + length cut_list
           \<and> (\<forall>k < length cut_list. fst (writer' ! (length writer + k)) = cut_list ! k)"
  using assms by (auto simp: write_cuts_def nth_append nth_enumerate_eq split: sum.splits)

lemma count_take_less:
  "l < k \<Longrightarrow> k < length xs \<Longrightarrow> xs ! l = xs ! k \<Longrightarrow> count_list (take l xs) (xs ! k) < count_list (take k xs) (xs ! k)"
proof -
  assume l: "l < k" and k: "k < length xs" and e: "xs ! l = xs ! k"
  obtain d where d: "k = l + Suc d" using l by (metis less_imp_Suc_add add_Suc_right)
  have "l < length xs" using l k by simp
  then have "drop l xs = xs ! l # drop (Suc l) xs" by (simp add: Cons_nth_drop_Suc)
  moreover have "take k xs = take l xs @ take (Suc d) (drop l xs)"
    unfolding d by (rule take_add)
  ultimately have "take k xs = take l xs @ xs ! l # take d (drop (Suc l) xs)"
    by simp
  then show ?thesis using e by simp
qed

lemma write_cuts_records:
  assumes "snd (write_cuts batch_cuts results writer) = Inr writer'"
  shows "length writer' = length writer + length (produced results) \<and>
     take (length writer) writer' = writer \<and>
     (\<forall>k < length (produced results).
        fst (fst (produced results ! k)) < length batch_cuts \<and>
        snd (fst (produced results ! k))
          < length (cut_supervisions (batch_cuts ! fst (fst (produced results ! k)))) \<and>
        fst (writer' ! (length writer + k)) =
          make_cut (batch_cuts ! fst (fst (produced results ! k))) (snd (fst (produced results ! k)))
            (origin_ids batch_cuts results ! k @ ''_'' @
               str_nat (count_list (take k (origin_ids batch_cuts results))
                          (origin_ids batch_cuts results ! k)))
            (snd (produced results ! k)))"
proof -
  from assms obtain cut_list where nc: "new_cuts batch_cuts results = Inr cut_list"
    and w: "writer' = writer @ map (\<lambda>ic. (snd ic, int (fst ic) = int (length cut_list) - 1)) (enumerate 0 cut_list)"
    by (auto simp: write_cuts_def split: sum.splits)
  from nc have wi: "write_items batch_cuts results Map.empty [] = Inr cut_list"
    by (simp add: new_cuts_def)
  note I = write_items_Inr[OF wi]
  have len: "length cut_list = length (produced results)" using I by simp
  have nth: "fst (writer' ! (length writer + k)) = cut_list ! k" if "k < length cut_list" for k
    using that by (simp add: w nth_append nth_enumerate_eq)
  show ?thesis
  proof (intro conjI allI impI)
    show "length writer' = length writer + length (produced results)"
      by (simp add: w len)
    show "take (length writer) writer' = writer" by (simp add: w)
  next
    fix k assume k: "k < length (produced results)"
    show "fst (fst (produced results ! k)) < length batch_cuts" using I k by simp
    show "snd (fst (produced results ! k))
          < length (cut_supervisions (batch_cuts ! fst (fst (produced results ! k))))"
      using I k by simp
    show "fst (writer' ! (length writer + k)) =
          make_cut (batch_cuts ! fst (fst (produced results ! k))) (snd (fst (produced results ! k)))
            (origin_ids batch_cuts results ! k @ ''_'' @
               str_nat (count_list (take k (origin_ids batch_cuts results))
                          (origin_ids batch_cuts results ! k)))
            (snd (produced results ! k))"
      using I k nth[of k] by (simp add: len counter_of_def)
  qed
qed

text \<open>
  Claim C9. When \<open>write\<close> returns, it has appended one record per produced segment, in
  order, and the id of the \<open>k\<close>-th new record is the id of its original cut, an
  underscore, and the number of earlier segments of this call that come from a cut with
  the same id: the numbers of one cut id start at 0 and go up by 1, over all the
  supervisions of the cut, and two records derived from the same cut id never share an id.
\<close>

theorem write_ids_sequential:
  assumes "snd (write_cuts batch_cuts results writer) = Inr writer'"
  shows "length writer' = length writer + length (produced results) \<and>
     take (length writer) writer' = writer \<and>
     (\<forall>k < length (produced results).
        cut_id (fst (writer' ! (length writer + k))) =
          origin_ids batch_cuts results ! k @ ''_'' @
            str_nat (count_list (take k (origin_ids batch_cuts results))
                       (origin_ids batch_cuts results ! k))) \<and>
     (\<forall>k < length (produced results). \<forall>l < k.
        origin_ids batch_cuts results ! l = origin_ids batch_cuts results ! k \<longrightarrow>
        cut_id (fst (writer' ! (length writer + l))) \<noteq> cut_id (fst (writer' ! (length writer + k))))"
proof -
  note R = write_cuts_records[OF assms]
  have ids: "cut_id (fst (writer' ! (length writer + k))) =
          origin_ids batch_cuts results ! k @ ''_'' @
            str_nat (count_list (take k (origin_ids batch_cuts results))
                       (origin_ids batch_cuts results ! k))"
    if "k < length (produced results)" for k
    using R that by (simp add: make_cut_def)
  have lo: "length (origin_ids batch_cuts results) = length (produced results)"
    by (simp add: origin_ids_def)
  have dist: "cut_id (fst (writer' ! (length writer + l))) \<noteq> cut_id (fst (writer' ! (length writer + k)))"
    if k: "k < length (produced results)" and l: "l < k"
      and e: "origin_ids batch_cuts results ! l = origin_ids batch_cuts results ! k" for k l
  proof
    assume eq: "cut_id (fst (writer' ! (length writer + l))) = cut_id (fst (writer' ! (length writer + k)))"
    have "l < length (produced results)" using k l by simp
    from eq ids[OF this] ids[OF k] e
    have "str_nat (count_list (take l (origin_ids batch_cuts results)) (origin_ids batch_cuts results ! k))
        = str_nat (count_list (take k (origin_ids batch_cuts results)) (origin_ids batch_cuts results ! k))"
      by simp
    then have "count_list (take l (origin_ids batch_cuts results)) (origin_ids batch_cuts results ! k)
        = count_list (take k (origin_ids batch_cuts results)) (origin_ids batch_cuts results ! k)"
      by (rule str_nat_inj)
    moreover have "count_list (take l (origin_ids batch_cuts results)) (origin_ids batch_cuts results ! k)
        < count_list (take k (origin_ids batch_cuts results)) (origin_ids batch_cuts results ! k)"
      using count_take_less[OF l _ e] k lo by simp
    ultimately show False by simp
  qed
  from R ids dist show ?thesis by blast
qed

lemma example_new_cuts:
  "snd (write_cuts [example_cut] example_results []) =
     Inr [(make_cut example_cut 0 ''cutA_0'' example_segment, False),
          (make_cut example_cut 0 ''cutA_1'' example_segment, False),
          (make_cut example_cut 0 ''cutA_2'' example_segment, True)]"
  by code_simp


text \<open>
  The hypothesis of C9 holds for a cut with three segments in two result items; the ids
  are \<open>cutA_0\<close>, \<open>cutA_1\<close>, \<open>cutA_2\<close>.
\<close>

theorem write_ids_sequential_witness:
  "\<exists>w. snd (write_cuts [example_cut] example_results []) = Inr w
       \<and> length w = 3
       \<and> map (\<lambda>r. cut_id (fst r)) w = [''cutA_0'', ''cutA_1'', ''cutA_2'']
       \<and> cut_id (fst (w ! 1)) \<noteq> cut_id (fst (w ! 2))"
proof -
  define w where "w = [(make_cut example_cut 0 ''cutA_0'' example_segment, False),
          (make_cut example_cut 0 ''cutA_1'' example_segment, False),
          (make_cut example_cut 0 ''cutA_2'' example_segment, True)]"
  have h: "snd (write_cuts [example_cut] example_results []) = Inr w"
    unfolding w_def by (rule example_new_cuts)
  have p: "length (produced example_results) = 3" by code_simp
  have o: "origin_ids [example_cut] example_results = [''cutA'', ''cutA'', ''cutA'']" by code_simp
  from write_ids_sequential[OF h]
  have "\<forall>k<3. \<forall>l<k. origin_ids [example_cut] example_results ! l = origin_ids [example_cut] example_results ! k \<longrightarrow>
        cut_id (fst (w ! (length ([] :: cuts_writer) + l))) \<noteq> cut_id (fst (w ! (length ([] :: cuts_writer) + k)))"
    unfolding p by blast
  then have "cut_id (fst (w ! 1)) \<noteq> cut_id (fst (w ! 2))"
    unfolding o by force
  moreover have "length w = 3" "map (\<lambda>r. cut_id (fst r)) w = [''cutA_0'', ''cutA_1'', ''cutA_2'']"
    by (simp_all add: w_def make_cut_def)
  ultimately show ?thesis using h by (intro exI[of _ w]) simp
qed

text \<open>
  Claim C10. Every record that \<open>write\<close> appends is a cut with exactly one supervision;
  the supervision has the id of the cut, start 0 and the duration of the cut, which is the
  duration of the segment; the cut starts at the start time of the segment and has the
  recording and the channel of the original cut.
\<close>

theorem write_record_shape:
  assumes "snd (write_cuts batch_cuts results writer) = Inr writer'"
  shows "length writer' = length writer + length (produced results) \<and>
     (\<forall>k < length (produced results).
        let c = fst (writer' ! (length writer + k));
            i = fst (fst (produced results ! k));
            seg = snd (produced results ! k)
        in i < length batch_cuts \<and>
           (\<exists>s. cut_supervisions c = [s] \<and> sup_id s = cut_id c \<and> sup_start s = 0
                 \<and> sup_duration s = cut_duration c) \<and>
           cut_duration c = duration seg \<and>
           cut_start c = start_time seg \<and>
           cut_recording c = cut_recording (batch_cuts ! i) \<and>
           cut_channel c = cut_channel (batch_cuts ! i))"
  using write_cuts_records[OF assms]
  by (simp add: Let_def make_cut_def new_supervision_def)

text \<open>The hypothesis of C10 holds for the same input; the third record is as stated.\<close>

theorem write_record_shape_witness:
  "\<exists>w. snd (write_cuts [example_cut] example_results []) = Inr w
       \<and> length w = 3
       \<and> (\<exists>s. cut_supervisions (fst (w ! 2)) = [s] \<and> sup_id s = cut_id (fst (w ! 2)) \<and> sup_start s = 0
                 \<and> sup_duration s = cut_duration (fst (w ! 2)))
       \<and> cut_duration (fst (w ! 2)) = 4 \<and> cut_start (fst (w ! 2)) = 1
       \<and> cut_recording (fst (w ! 2)) = \<lparr>rec_id = ''rec1''\<rparr> \<and> cut_channel (fst (w ! 2)) = 0"
proof -
  define w where "w = [(make_cut example_cut 0 ''cutA_0'' example_segment, False),
          (make_cut example_cut 0 ''cutA_1'' example_segment, False),
          (make_cut example_cut 0 ''cutA_2'' example_segment, True)]"
  have h: "snd (write_cuts [example_cut] example_results []) = Inr w"
    unfolding w_def by (rule example_new_cuts)
  have p: "produced example_results = [((0, 0), example_segment), ((0, 0), example_segment), ((0, 0), example_segment)]"
    by (simp add: produced_def example_results_def)
  have k: "2 < length (produced example_results)" by (simp add: p)
  from write_record_shape[OF h] have len: "length w = 0 + length (produced example_results)"
    by simp
  from write_record_shape[OF h] k
  have "let c = fst (w ! (length ([] :: cuts_writer) + 2)); i = fst (fst (produced example_results ! 2));
            seg = snd (produced example_results ! 2)
        in i < length [example_cut] \<and>
           (\<exists>s. cut_supervisions c = [s] \<and> sup_id s = cut_id c \<and> sup_start s = 0
                 \<and> sup_duration s = cut_duration c) \<and>
           cut_duration c = duration seg \<and>
           cut_start c = start_time seg \<and>
           cut_recording c = cut_recording ([example_cut] ! i) \<and>
           cut_channel c = cut_channel ([example_cut] ! i)"
    by blast
  then show ?thesis using h len
    by (intro exI[of _ w]) (auto simp add: p Let_def example_segment_def example_cut_def numeral_2_eq_2)
qed

text \<open>
  Claim C2 fails on the code. For a segment whose \<open>post_ref\<close> is \<open>R\<close> and whose
  \<open>post_hyp\<close> is \<open>H\<close>, the record written carries the pair of preceding texts
  (reference, hypothesis), but its \<open>post_texts\<close> is \<open>[R, R]\<close>: the reference-side
  text twice, and the hypothesis-side text \<open>post_hyp\<close> nowhere.
\<close>

theorem write_post_texts_repeats_post_ref:
  "\<exists>c s m. snd (write_cuts [example_cut] [((0, 0), [example_segment])] []) = Inr [(c, True)]
       \<and> cut_supervisions c = [s] \<and> sup_custom s = Some m
       \<and> pre_texts m = [pre_ref example_segment, pre_hyp example_segment]
       \<and> post_texts m = [post_ref example_segment, post_ref example_segment]
       \<and> post_texts m \<noteq> [post_ref example_segment, post_hyp example_segment]"
proof -
  have "snd (write_cuts [example_cut] [((0, 0), [example_segment])] [])
      = Inr [(make_cut example_cut 0 ''cutA_0'' example_segment, True)]"
    by code_simp
  then show ?thesis
    by (simp add: make_cut_def new_supervision_def example_segment_def)
qed

section \<open>The batching of main\<close>

text \<open>
  \<open>main\<close> is \<open>main_with\<close> applied to \<open>process_one_batch\<close>; the batches it processes
  are those that \<open>batches_of\<close> lists. A stream no longer than the batch size is one batch;
  from a longer stream at least one cut reaches no batch.
\<close>

lemma main_loop_record_batch:
  "\<exists>batch' new.
     snd (main_loop record_batch bs ics batch seen) = Inr (batch', seen @ new)
     \<and> length (concat new) + length batch' \<le> length batch + length ics
     \<and> (int (length batch) \<le> bs \<and> bs < int (length batch) + int (length ics)
          \<longrightarrow> length (concat new) + length batch' < length batch + length ics)"
proof (induction ics arbitrary: batch seen)
  case Nil
  show ?case by (rule exI[of _ batch], rule exI[of _ "[]"]) simp
next
  case (Cons ic ics)
  show ?case
  proof (cases "int (length batch) < bs")
    case True
    obtain batch' new where
      r: "snd (main_loop record_batch bs ics (batch @ [snd ic]) seen) = Inr (batch', seen @ new)"
      and le: "length (concat new) + length batch' \<le> length (batch @ [snd ic]) + length ics"
      and lt: "int (length (batch @ [snd ic])) \<le> bs \<and> bs < int (length (batch @ [snd ic])) + int (length ics)
          \<longrightarrow> length (concat new) + length batch' < length (batch @ [snd ic]) + length ics"
      using Cons.IH[of "batch @ [snd ic]" seen] by blast
    show ?thesis
      by (rule exI[of _ batch'], rule exI[of _ new]) (use True r le lt in auto)
  next
    case False
    obtain batch' new where
      r: "snd (main_loop record_batch bs ics [] (seen @ [batch])) = Inr (batch', (seen @ [batch]) @ new)"
      and le: "length (concat new) + length batch' \<le> length ([] :: 'a list) + length ics"
      using Cons.IH[of "[]" "seen @ [batch]"] by blast
    have "snd (main_loop record_batch bs (ic # ics) batch seen)
        = snd (main_loop record_batch bs ics [] (seen @ [batch]))"
      using False by (simp add: record_batch_def split: prod.splits)
    with r le show ?thesis
      by (intro exI[of _ batch'] exI[of _ "batch # new"]) simp
  qed
qed

lemma batches_of_eq:
  "snd (main_loop record_batch bs (enumerate 0 raw_cuts) [] []) = Inr (batch', new) \<Longrightarrow>
     batches_of bs raw_cuts = Inr (if batch' = [] then new else new @ [batch'])"
  by (cases "main_loop record_batch bs (enumerate 0 raw_cuts) [] []")
     (auto simp add: batches_of_def main_with_def record_batch_def)

lemma main_loses_a_cut:
  assumes "0 \<le> bs" and "nat bs < length raw_cuts"
  shows "\<exists>batches. batches_of bs raw_cuts = Inr batches \<and> length (concat batches) < length raw_cuts"
proof -
  obtain batch' new where
    r: "snd (main_loop record_batch bs (enumerate 0 raw_cuts) [] []) = Inr (batch', [] @ new)"
    and lt: "int (length ([] :: 'a list)) \<le> bs \<and> bs < int (length ([] :: 'a list)) + int (length (enumerate 0 raw_cuts))
          \<longrightarrow> length (concat new) + length batch' < length ([] :: 'a list) + length (enumerate 0 raw_cuts)"
    using main_loop_record_batch[of bs "enumerate 0 raw_cuts" "[]" "[]"] by blast
  from assms lt have l: "length (concat new) + length batch' < length raw_cuts" by simp
  from r have "batches_of bs raw_cuts = Inr (if batch' = [] then new else new @ [batch'])"
    by (simp add: batches_of_eq)
  with l show ?thesis by auto
qed

lemma main_keeps_short_stream:
  assumes "int (length raw_cuts) \<le> bs"
  shows "batches_of bs raw_cuts = Inr (if raw_cuts = [] then [] else [raw_cuts])"
proof -
  have "int (length batch) + int (length ics) \<le> bs \<Longrightarrow>
      main_loop record_batch bs ics batch seen = ([], Inr (batch @ map snd ics, seen))"
    for ics :: "(nat \<times> 'a) list" and batch and seen :: "'a list list"
    by (induction ics arbitrary: batch) auto
  moreover from assms have "int (length ([] :: 'a list)) + int (length (enumerate 0 raw_cuts)) \<le> bs"
    by simp
  ultimately have "main_loop record_batch bs (enumerate 0 raw_cuts) [] []
      = ([], Inr ([] @ map snd (enumerate 0 raw_cuts), []))"
    by blast
  then have "snd (main_loop record_batch bs (enumerate 0 raw_cuts) [] []) = Inr (raw_cuts, [])"
    by simp
  then show ?thesis by (simp add: batches_of_eq)
qed

text \<open>
  Claim C1 fails on the code. With batch size 2, the batches that the loop of \<open>main\<close>
  passes on for the stream \<open>a, b, c\<close> are \<open>[a, b]\<close> alone: the cut \<open>c\<close>, which
  arrives when the batch is full, is in no batch. For seven cuts, the third and the sixth
  are in no batch.
\<close>

theorem main_drops_cut_after_full_batch:
  "batches_of 2 [a, b, c] = Inr [[a, b]] \<and> batches_of 2 [a, b, c, d, e, f, g] = Inr [[a, b], [d, e], [g]]"
  by (simp add: batches_of_def main_with_def record_batch_def)

section \<open>Properties of load_data\<close>

lemma load_supervision_core:
  "core st = core st' \<Longrightarrow> core (load_supervision lib ps i st js) = core (load_supervision lib ps i st' js)"
  by (simp add: core_def load_supervision_def Let_def)

lemma foldl_load_supervision_core:
  "core st = core st' \<Longrightarrow>
     core (foldl (load_supervision lib ps i) st jss) = core (foldl (load_supervision lib ps i) st' jss)"
proof (induction jss arbitrary: st st')
  case Nil
  then show ?case by simp
next
  case (Cons js jss)
  from Cons.prems have "core (load_supervision lib ps i st js) = core (load_supervision lib ps i st' js)"
    by (rule load_supervision_core)
  then show ?case unfolding foldl_Cons by (rule Cons.IH)
qed

lemma foldl_load_supervision_frame:
  "book_paths (foldl (load_supervision lib ps i) st jss) = book_paths st
   \<and> logged (foldl (load_supervision lib ps i) st jss) = logged st"
  by (induction jss arbitrary: st) (simp_all add: load_supervision_def Let_def)

lemma load_cut_core:
  assumes "core st = core st'"
  shows "core (load_cut lib env ps w st ic) = core (load_cut lib env ps w' st' ic)"
proof (cases "isfile env (cut_text_path (snd ic))")
  case False
  then show ?thesis using assms by (simp add: load_cut_def core_def)
next
  case True
  from assms have "core (foldl (load_supervision lib ps (fst ic)) st (enumerate 0 (cut_supervisions (snd ic))))
      = core (foldl (load_supervision lib ps (fst ic)) st' (enumerate 0 (cut_supervisions (snd ic))))"
    by (rule foldl_load_supervision_core)
  then show ?thesis using True by (simp add: load_cut_def core_def Let_def)
qed

lemma load_cut_missing:
  "\<not> isfile env (cut_text_path (snd ic)) \<Longrightarrow> core (load_cut lib env ps w st ic) = core st"
  by (simp add: load_cut_def core_def)

lemma foldl_load_cut_core:
  "core st = core st' \<Longrightarrow>
     core (foldl (load_cut lib env ps w) st ics) = core (foldl (load_cut lib env ps w') st' ics)"
proof (induction ics arbitrary: st st')
  case Nil
  then show ?case by simp
next
  case (Cons ic ics)
  from Cons.prems have "core (load_cut lib env ps w st ic) = core (load_cut lib env ps w' st' ic)"
    by (rule load_cut_core)
  then show ?case unfolding foldl_Cons by (rule Cons.IH)
qed

lemma load_cuts_skip_missing:
  assumes "\<not> isfile env (cut_text_path (snd ic))"
  shows "core (load_cuts lib env ps w (xs @ ic # ys)) = core (load_cuts lib env ps w (xs @ ys))"
proof -
  have "core (load_cut lib env ps w (foldl (load_cut lib env ps w) (initial_state w) xs) ic)
      = core (foldl (load_cut lib env ps w) (initial_state w) xs)"
    using assms by (rule load_cut_missing)
  then have "core (foldl (load_cut lib env ps w) (load_cut lib env ps w (foldl (load_cut lib env ps w) (initial_state w) xs) ic) ys)
      = core (foldl (load_cut lib env ps w) (foldl (load_cut lib env ps w) (initial_state w) xs) ys)"
    by (rule foldl_load_cut_core)
  then show ?thesis
    by (simp add: load_cuts_def)
qed

lemma load_cuts_worker_core:
  "core (load_cuts lib env ps w ics) = core (load_cuts lib env ps w' ics)"
proof -
  have "core (initial_state w) = core (initial_state w')"
    by (simp add: core_def initial_state_def)
  then show ?thesis
    unfolding load_cuts_def by (rule foldl_load_cut_core)
qed


subsection \<open>Invariants of the first loop\<close>

lemma load_supervision_counted:
  "counted st \<Longrightarrow> counted (load_supervision lib ps i st js)"
  by (simp add: counted_def load_supervision_def Let_def query_tokens_def)

lemma foldl_load_supervision_counted:
  "counted st \<Longrightarrow> counted (foldl (load_supervision lib ps i) st jss)"
  by (induction jss arbitrary: st) (simp_all add: load_supervision_counted)

lemma load_cut_counted: "counted st \<Longrightarrow> counted (load_cut lib env ps w st ic)"
proof -
  assume c: "counted st"
  have "counted (st\<lparr>logged := l\<rparr>)" for l using c by (simp add: counted_def)
  moreover have "counted (st'\<lparr>book_paths := b\<rparr>)" if "counted st'" for st' b
    using that by (simp add: counted_def)
  moreover have "counted (foldl (load_supervision lib ps (fst ic)) st (enumerate 0 (cut_supervisions (snd ic))))"
    using c by (rule foldl_load_supervision_counted)
  ultimately show ?thesis
    by (simp add: load_cut_def Let_def)
qed

lemma load_cuts_counted: "counted (load_cuts lib env ps w ics)"
proof -
  have "counted st \<Longrightarrow> counted (foldl (load_cut lib env ps w) st ics)" for st
    by (induction ics arbitrary: st) (simp_all add: load_cut_counted)
  moreover have "counted (initial_state w)"
    by (simp add: counted_def initial_state_def query_tokens_def)
  ultimately show ?thesis by (simp add: load_cuts_def)
qed

lemma foldl_load_supervision_empty:
  "transcripts (foldl (load_supervision lib ps i) st jss) = []
     \<longleftrightarrow> transcripts st = [] \<and> list_all (\<lambda>js. sup_alignment (snd js) = []) jss"
  by (induction jss arbitrary: st) (auto simp add: load_supervision_def Let_def)

lemma list_all_enumerate:
  "list_all (\<lambda>js. P (snd js)) (enumerate n xs) = list_all P xs"
  by (induction xs arbitrary: n) simp_all

lemma load_cut_empty:
  "transcripts (load_cut lib env ps w st ic) = []
     \<longleftrightarrow> transcripts st = [] \<and>
         (\<not> isfile env (cut_text_path (snd ic))
          \<or> list_all (\<lambda>s. sup_alignment s = []) (cut_supervisions (snd ic)))"
proof -
  have "list_all (\<lambda>js. sup_alignment (snd js) = []) (enumerate 0 (cut_supervisions (snd ic)))
      = list_all (\<lambda>s. sup_alignment s = []) (cut_supervisions (snd ic))"
    by (rule list_all_enumerate)
  then show ?thesis
    by (auto simp add: load_cut_def Let_def foldl_load_supervision_empty)
qed

lemma foldl_load_cut_empty:
  "transcripts (foldl (load_cut lib env ps w) st ics) = []
     \<longleftrightarrow> transcripts st = [] \<and>
         list_all (\<lambda>ic. \<not> isfile env (cut_text_path (snd ic))
                     \<or> list_all (\<lambda>s. sup_alignment s = []) (cut_supervisions (snd ic))) ics"
  by (induction ics arbitrary: st) (auto simp add: load_cut_empty)

lemma load_cuts_empty:
  "transcripts (load_cuts lib env ps w (enumerate 0 batch_cuts)) = [] \<longleftrightarrow> no_usable_query env batch_cuts"
proof -
  have "list_all (\<lambda>ic. \<not> isfile env (cut_text_path (snd ic))
                     \<or> list_all (\<lambda>s. sup_alignment s = []) (cut_supervisions (snd ic))) (enumerate 0 batch_cuts)
      = list_all (\<lambda>c. \<not> isfile env (cut_text_path c)
                     \<or> list_all (\<lambda>s. sup_alignment s = []) (cut_supervisions c)) batch_cuts"
    by (rule list_all_enumerate)
  moreover have "transcripts (initial_state w) = []" by (simp add: initial_state_def)
  ultimately show ?thesis
    unfolding load_cuts_def foldl_load_cut_empty no_usable_query_def by simp
qed

lemma set_add_props:
  "set (set_add s x) = insert x (set s)" "distinct s \<Longrightarrow> distinct (set_add s x)"
  by (auto simp: set_add_def)

lemma load_cut_paths:
  "set (book_paths (load_cut lib env ps w st ic)) =
     set (book_paths st) \<union> set (filter (isfile env) [cut_text_path (snd ic)])"
  "distinct (book_paths st) \<Longrightarrow> distinct (book_paths (load_cut lib env ps w st ic))"
  by (auto simp add: load_cut_def Let_def set_add_props foldl_load_supervision_frame)

lemma foldl_load_cut_paths:
  "set (book_paths (foldl (load_cut lib env ps w) st ics)) =
     set (book_paths st) \<union> set (filter (isfile env) (map (\<lambda>ic. cut_text_path (snd ic)) ics))
   \<and> (distinct (book_paths st) \<longrightarrow> distinct (book_paths (foldl (load_cut lib env ps w) st ics)))"
proof (induction ics arbitrary: st)
  case Nil
  then show ?case by simp
next
  case (Cons ic ics)
  show ?case
    unfolding foldl_Cons using Cons.IH[of "load_cut lib env ps w st ic"] load_cut_paths[where lib = lib and env = env and ps = ps and w = w and st = st and ic = ic]
    by auto
qed

lemma map_snd_enumerate_path:
  "map (\<lambda>ic. cut_text_path (snd ic)) (enumerate n xs) = map cut_text_path xs"
  by (induction xs arbitrary: n) simp_all

lemma load_cuts_paths:
  "set (book_paths (load_cuts lib env ps w (enumerate 0 batch_cuts)))
     = set (filter (isfile env) (map cut_text_path batch_cuts))"
  "distinct (book_paths (load_cuts lib env ps w (enumerate 0 batch_cuts)))"
  using foldl_load_cut_paths[of lib env ps w "initial_state w" "enumerate 0 batch_cuts"]
  by (simp_all add: load_cuts_def initial_state_def map_snd_enumerate_path)

subsection \<open>The log of the first loop\<close>

lemma load_cut_logged:
  "\<exists>ext. logged (load_cut lib env ps w st ic) = logged st @ ext \<and> opened_files ext = []
     \<and> (\<not> isfile env (cut_text_path (snd ic)) \<longrightarrow> Log WARNING (skip_message w (snd ic)) \<in> set ext)"
  by (simp add: load_cut_def Let_def foldl_load_supervision_frame opened_files_def)

lemma opened_files_append: "opened_files (xs @ ys) = opened_files xs @ opened_files ys"
  by (simp add: opened_files_def)

lemma foldl_load_cut_logged:
  "\<exists>ext. logged (foldl (load_cut lib env ps w) st ics) = logged st @ ext \<and> opened_files ext = []
     \<and> (\<forall>ic \<in> set ics. \<not> isfile env (cut_text_path (snd ic)) \<longrightarrow> Log WARNING (skip_message w (snd ic)) \<in> set ext)"
proof (induction ics arbitrary: st)
  case Nil
  then show ?case by (simp add: opened_files_def)
next
  case (Cons ic ics)
  obtain e1 where e1: "logged (load_cut lib env ps w st ic) = logged st @ e1" "opened_files e1 = []"
      "\<not> isfile env (cut_text_path (snd ic)) \<longrightarrow> Log WARNING (skip_message w (snd ic)) \<in> set e1"
    using load_cut_logged[of lib env ps w st ic] by blast
  obtain e2 where e2: "logged (foldl (load_cut lib env ps w) (load_cut lib env ps w st ic) ics)
       = logged (load_cut lib env ps w st ic) @ e2" "opened_files e2 = []"
      "\<forall>ic \<in> set ics. \<not> isfile env (cut_text_path (snd ic)) \<longrightarrow> Log WARNING (skip_message w (snd ic)) \<in> set e2"
    using Cons.IH[of "load_cut lib env ps w st ic"] by blast
  show ?case
    by (rule exI[of _ "e1 @ e2"]) (use e1 e2 in \<open>auto simp: opened_files_append\<close>)
qed

lemma load_cuts_logged:
  "opened_files (logged (load_cuts lib env ps w ics)) = []"
  "(i, c) \<in> set ics \<Longrightarrow> \<not> isfile env (cut_text_path c) \<Longrightarrow>
     Log WARNING (skip_message w c) \<in> set (logged (load_cuts lib env ps w ics))"
  using foldl_load_cut_logged[of lib env ps w "initial_state w" ics]
  by (auto simp: load_cuts_def opened_files_append initial_state_def opened_files_def)


subsection \<open>The second loop and the end of load_data\<close>

lemma load_books_ok:
  "list_all (isfile env) paths \<Longrightarrow>
     load_books lib env ps paths books opened =
       Inr (books @ map (\<lambda>p. from_str lib p (the (files env p)) (use_utf8 ps) (has_punctuation ps)) paths,
            opened @ map Open_file paths)"
  by (induction paths arbitrary: books opened) (auto simp: isfile_def)

lemma load_cuts_paths_exist: "list_all (isfile env) (set_iter env (book_paths (load_cuts lib env ps w ics)))"
  using foldl_load_cut_paths[of lib env ps w "initial_state w" ics]
  by (auto simp: list_all_iff set_iter_def load_cuts_def initial_state_def)

lemma load_data_from_eq:
  "load_data_from lib env ps ics w =
     finish_load lib ps w (load_cuts lib env ps w ics)
       (map (\<lambda>p. from_str lib p (the (files env p)) (use_utf8 ps) (has_punctuation ps))
          (set_iter env (book_paths (load_cuts lib env ps w ics))))
       (logged (load_cuts lib env ps w ics)
          @ map Open_file (set_iter env (book_paths (load_cuts lib env ps w ics))))"
  by (simp add: load_data_from_def Let_def load_books_ok[OF load_cuts_paths_exist])

lemma opened_files_map_Open: "opened_files (map Open_file ps) = ps"
  by (induction ps) (simp_all add: opened_files_def)

lemma finish_load_trace:
  "\<exists>ext. fst (finish_load lib ps w st books ev) = ev @ ext \<and> opened_files ext = []"
  by (simp add: finish_load_def Let_def opened_files_def)

lemma finish_load_core:
  "core st = core st' \<Longrightarrow>
     snd (finish_load lib ps w st books ev) = snd (finish_load lib ps w' st' books ev')"
  by (simp add: finish_load_def Let_def core_def)

lemma finish_load_None:
  "snd (finish_load lib ps w st books ev) = Inr None \<longleftrightarrow> transcripts st = []"
  by (simp add: finish_load_def Let_def)

lemma finish_load_Some:
  "snd (finish_load lib ps w st books ev) = Inr (Some raw) \<Longrightarrow>
     transcripts st \<noteq> [] \<and>
     raw = \<lparr>raw_num_query_tokens = num_query_tokens st, raw_cut_indexes = transcripts_cut_index st,
            raw_sourced_text = build_sourced_text lib ps (transcripts st) books\<rparr> \<and>
     length (transcripts st) < length (st_doc_splits (build_sourced_text lib ps (transcripts st) books)) \<and>
     num_query_tokens st = st_doc_splits (build_sourced_text lib ps (transcripts st) books) ! length (transcripts st)"
  by (auto simp add: finish_load_def Let_def split: if_splits)

lemma finish_load_violation:
  "transcripts st \<noteq> [] \<Longrightarrow>
     snd (finish_load lib ps w st books ev) =
       (if length (transcripts st) < length (st_doc_splits (build_sourced_text lib ps (transcripts st) books))
        then if num_query_tokens st = st_doc_splits (build_sourced_text lib ps (transcripts st) books) ! length (transcripts st)
             then Inr (Some \<lparr>raw_num_query_tokens = num_query_tokens st, raw_cut_indexes = transcripts_cut_index st,
                    raw_sourced_text = build_sourced_text lib ps (transcripts st) books\<rparr>)
             else Inl AssertionError
        else Inl IndexError)"
  by (simp add: finish_load_def Let_def)

lemma load_cuts_core_fields:
  "transcripts (load_cuts lib env ps w ics) = transcripts (load_cuts lib env ps w' ics)"
  "book_paths (load_cuts lib env ps w ics) = book_paths (load_cuts lib env ps w' ics)"
  "num_query_tokens (load_cuts lib env ps w ics) = num_query_tokens (load_cuts lib env ps w' ics)"
  "transcripts_cut_index (load_cuts lib env ps w ics) = transcripts_cut_index (load_cuts lib env ps w' ics)"
  using load_cuts_worker_core[of lib env ps w ics w'] by (simp_all add: core_def)

lemma load_data_opened:
  "opened_files (fst (load_data_from lib env ps ics w)) = set_iter env (book_paths (load_cuts lib env ps w ics))"
proof -
  obtain ext where "fst (load_data_from lib env ps ics w) =
      (logged (load_cuts lib env ps w ics) @ map Open_file (set_iter env (book_paths (load_cuts lib env ps w ics)))) @ ext"
      "opened_files ext = []"
    unfolding load_data_from_eq using finish_load_trace by blast
  then show ?thesis
    by (simp add: opened_files_append opened_files_map_Open load_cuts_logged(1))
qed

lemma load_data_logged:
  "set (logged (load_cuts lib env ps w ics)) \<subseteq> set (fst (load_data_from lib env ps ics w))"
proof -
  obtain ext where "fst (load_data_from lib env ps ics w) =
      (logged (load_cuts lib env ps w ics) @ map Open_file (set_iter env (book_paths (load_cuts lib env ps w ics)))) @ ext"
    unfolding load_data_from_eq using finish_load_trace by blast
  then show ?thesis by auto
qed

lemma load_data_no_FileNotFoundError:
  "snd (load_data_from lib env ps ics w) \<noteq> Inl FileNotFoundError"
  unfolding load_data_from_eq by (simp add: finish_load_def Let_def)



lemma load_data_result:
  "snd (load_data lib env ps batch_cuts w) =
     snd (finish_load lib ps w (load_cuts lib env ps 0 (enumerate 0 batch_cuts))
       (map (\<lambda>p. from_str lib p (the (files env p)) (use_utf8 ps) (has_punctuation ps))
          (books_order lib env ps batch_cuts)) [])"
proof -
  have "core (load_cuts lib env ps w (enumerate 0 batch_cuts)) = core (load_cuts lib env ps 0 (enumerate 0 batch_cuts))"
    by (rule load_cuts_worker_core)
  then show ?thesis
    unfolding load_data_def load_data_from_eq books_order_def
      load_cuts_core_fields(2)[of lib env ps w "enumerate 0 batch_cuts" 0]
    by (rule finish_load_core)
qed

lemma books_order_loaded:
  "load_books lib env ps (books_order lib env ps batch_cuts) [] [] =
     Inr (map (\<lambda>p. from_str lib p (the (files env p)) (use_utf8 ps) (has_punctuation ps))
            (books_order lib env ps batch_cuts),
          map Open_file (books_order lib env ps batch_cuts))"
  unfolding books_order_def
  using load_books_ok[OF load_cuts_paths_exist, where books = "[]" and opened = "[]"]
  by simp

text \<open>
  Claim C3. Whenever \<open>load_data\<close> returns a non-empty result, the number of query tokens
  it returns is the sum of the sizes of the query documents, the boundary table of the
  sourced text has an entry at the number of query documents, and that entry is this sum.
  A violation is not tolerated: for a batch with a query document whose sum differs from
  the entry, \<open>load_data\<close> raises AssertionError, and where the table has no such entry it
  raises IndexError. This holds for every library.
\<close>

theorem load_data_token_count_invariant:
  "(\<forall>raw. snd (load_data lib env ps batch_cuts w) = Inr (Some raw) \<longrightarrow>
       raw_num_query_tokens raw = query_tokens (query_documents lib env ps batch_cuts) \<and>
       length (query_documents lib env ps batch_cuts) < length (st_doc_splits (raw_sourced_text raw)) \<and>
       query_tokens (query_documents lib env ps batch_cuts)
         = st_doc_splits (raw_sourced_text raw) ! length (query_documents lib env ps batch_cuts))
   \<and> (\<forall>books opened.
         load_books lib env ps (books_order lib env ps batch_cuts) [] [] = Inr (books, opened) \<and>
         query_documents lib env ps batch_cuts \<noteq> [] \<and>
         length (query_documents lib env ps batch_cuts)
           < length (st_doc_splits (build_sourced_text lib ps (query_documents lib env ps batch_cuts) books)) \<and>
         query_tokens (query_documents lib env ps batch_cuts)
           \<noteq> st_doc_splits (build_sourced_text lib ps (query_documents lib env ps batch_cuts) books)
               ! length (query_documents lib env ps batch_cuts)
         \<longrightarrow> snd (load_data lib env ps batch_cuts w) = Inl AssertionError)
   \<and> (\<forall>books opened.
         load_books lib env ps (books_order lib env ps batch_cuts) [] [] = Inr (books, opened) \<and>
         query_documents lib env ps batch_cuts \<noteq> [] \<and>
         \<not> length (query_documents lib env ps batch_cuts)
           < length (st_doc_splits (build_sourced_text lib ps (query_documents lib env ps batch_cuts) books))
         \<longrightarrow> snd (load_data lib env ps batch_cuts w) = Inl IndexError)"
proof -
  define st where "st = load_cuts lib env ps 0 (enumerate 0 batch_cuts)"
  have num: "num_query_tokens st = query_tokens (transcripts st)"
    using load_cuts_counted[of lib env ps 0 "enumerate 0 batch_cuts"] by (simp add: st_def counted_def)
  have qd: "query_documents lib env ps batch_cuts = transcripts st"
    by (simp add: query_documents_def st_def)
  show ?thesis
  proof (intro conjI allI impI)
    fix raw assume "snd (load_data lib env ps batch_cuts w) = Inr (Some raw)"
    then have S: "snd (finish_load lib ps w st
       (map (\<lambda>p. from_str lib p (the (files env p)) (use_utf8 ps) (has_punctuation ps))
          (books_order lib env ps batch_cuts)) []) = Inr (Some raw)"
      by (simp add: load_data_result st_def)
    note F = finish_load_Some[OF S]
    show "raw_num_query_tokens raw = query_tokens (query_documents lib env ps batch_cuts)"
      using F num by (simp add: qd)
    show "length (query_documents lib env ps batch_cuts) < length (st_doc_splits (raw_sourced_text raw))"
      using F by (simp add: qd)
    show "query_tokens (query_documents lib env ps batch_cuts)
         = st_doc_splits (raw_sourced_text raw) ! length (query_documents lib env ps batch_cuts)"
      using F num by (simp add: qd)
  next
    fix books opened
    assume a: "load_books lib env ps (books_order lib env ps batch_cuts) [] [] = Inr (books, opened) \<and>
         query_documents lib env ps batch_cuts \<noteq> [] \<and>
         length (query_documents lib env ps batch_cuts)
           < length (st_doc_splits (build_sourced_text lib ps (query_documents lib env ps batch_cuts) books)) \<and>
         query_tokens (query_documents lib env ps batch_cuts)
           \<noteq> st_doc_splits (build_sourced_text lib ps (query_documents lib env ps batch_cuts) books)
               ! length (query_documents lib env ps batch_cuts)"
    then have b: "books = map (\<lambda>p. from_str lib p (the (files env p)) (use_utf8 ps) (has_punctuation ps))
          (books_order lib env ps batch_cuts)"
      by (simp add: books_order_loaded)
    from a have ne: "transcripts st \<noteq> []" by (simp add: qd)
    show "snd (load_data lib env ps batch_cuts w) = Inl AssertionError"
      unfolding load_data_result st_def[symmetric] b[symmetric] finish_load_violation[OF ne]
      using a num by (simp add: qd)
  next
    fix books opened
    assume a: "load_books lib env ps (books_order lib env ps batch_cuts) [] [] = Inr (books, opened) \<and>
         query_documents lib env ps batch_cuts \<noteq> [] \<and>
         \<not> length (query_documents lib env ps batch_cuts)
           < length (st_doc_splits (build_sourced_text lib ps (query_documents lib env ps batch_cuts) books))"
    then have b: "books = map (\<lambda>p. from_str lib p (the (files env p)) (use_utf8 ps) (has_punctuation ps))
          (books_order lib env ps batch_cuts)"
      by (simp add: books_order_loaded)
    from a have ne: "transcripts st \<noteq> []" by (simp add: qd)
    show "snd (load_data lib env ps batch_cuts w) = Inl IndexError"
      unfolding load_data_result st_def[symmetric] b[symmetric] finish_load_violation[OF ne]
      using a by (simp add: qd)
  qed
qed


text \<open>
  Both cases occur: with the example library the result is returned and the sum, 3, is the
  entry of the table; with a library that returns a wrong table the assertion fails.
\<close>

theorem load_data_token_count_invariant_witness:
  "(\<exists>raw. snd (load_data example_lib example_env (get_params 50) [example_cut] 0) = Inr (Some raw)
       \<and> raw_num_query_tokens raw = 3
       \<and> query_tokens (query_documents example_lib example_env (get_params 50) [example_cut]) = 3
       \<and> st_doc_splits (raw_sourced_text raw) ! 1 = 3)
   \<and> snd (load_data broken_lib example_env (get_params 50) [example_cut] 0) = Inl AssertionError"
proof -
  have "case snd (load_data example_lib example_env (get_params 50) [example_cut] 0) of
          Inr (Some raw) \<Rightarrow> raw_num_query_tokens raw = 3 | _ \<Rightarrow> False"
    by code_simp
  then obtain raw where r: "snd (load_data example_lib example_env (get_params 50) [example_cut] 0) = Inr (Some raw)"
      "raw_num_query_tokens raw = 3"
    by (auto split: sum.splits option.splits)
  have l: "length (query_documents example_lib example_env (get_params 50) [example_cut]) = 1"
    by code_simp
  from load_data_token_count_invariant[of example_lib example_env "get_params 50" "[example_cut]" 0] r
  have "raw_num_query_tokens raw = query_tokens (query_documents example_lib example_env (get_params 50) [example_cut])
      \<and> query_tokens (query_documents example_lib example_env (get_params 50) [example_cut])
         = st_doc_splits (raw_sourced_text raw) ! length (query_documents example_lib example_env (get_params 50) [example_cut])"
    by blast
  with r l have first: "\<exists>raw. snd (load_data example_lib example_env (get_params 50) [example_cut] 0) = Inr (Some raw)
       \<and> raw_num_query_tokens raw = 3
       \<and> query_tokens (query_documents example_lib example_env (get_params 50) [example_cut]) = 3
       \<and> st_doc_splits (raw_sourced_text raw) ! 1 = 3"
    by (intro exI[of _ raw]) simp
  define books where "books = [\<lparr>ts_name = ''book.txt'', ts_binary_text = map of_char ''Hi, you.''\<rparr>]"
  have b: "load_books broken_lib example_env (get_params 50)
             (books_order broken_lib example_env (get_params 50) [example_cut]) [] []
           = Inr (books, [Open_file ''book.txt''])"
    unfolding books_def by code_simp
  have q: "query_documents broken_lib example_env (get_params 50) [example_cut] \<noteq> []"
    by code_simp
  have i: "length (query_documents broken_lib example_env (get_params 50) [example_cut])
      < length (st_doc_splits (build_sourced_text broken_lib (get_params 50)
           (query_documents broken_lib example_env (get_params 50) [example_cut]) books))"
    unfolding books_def by code_simp
  have v: "query_tokens (query_documents broken_lib example_env (get_params 50) [example_cut])
      \<noteq> st_doc_splits (build_sourced_text broken_lib (get_params 50)
           (query_documents broken_lib example_env (get_params 50) [example_cut]) books)
          ! length (query_documents broken_lib example_env (get_params 50) [example_cut])"
    unfolding books_def by code_simp
  from load_data_token_count_invariant[of broken_lib example_env "get_params 50" "[example_cut]" 0] b q i v
  have "snd (load_data broken_lib example_env (get_params 50) [example_cut] 0) = Inl AssertionError"
    by blast
  with first show ?thesis by blast
qed

text \<open>
  Claim C4. \<open>load_data\<close> returns the empty dict exactly when the batch has no usable query
  document, that is when every cut has no reference file or only supervisions with an
  empty alignment list, which is when no query document is built. On such a batch
  \<open>process_one_batch\<close> logs the warning after the trace of \<open>load_data\<close> and returns with
  the writer unchanged: nothing is aligned, split or written.
\<close>

theorem load_data_empty_iff_no_usable_query:
  "(snd (load_data lib env ps batch_cuts w) = Inr None \<longleftrightarrow> no_usable_query env batch_cuts)
   \<and> (no_usable_query env batch_cuts \<longleftrightarrow> query_documents lib env ps batch_cuts = [])
   \<and> (no_usable_query env batch_cuts \<longrightarrow>
        process_one_batch lib env ps batch_cuts writer =
          (fst (load_data lib env ps batch_cuts 0) @ [Log WARNING ''Raw data is empty.''], Inr writer))"
proof -
  have e: "no_usable_query env batch_cuts \<longleftrightarrow> query_documents lib env ps batch_cuts = []"
    by (simp add: query_documents_def load_cuts_empty)
  have n: "snd (load_data lib env ps batch_cuts w) = Inr None \<longleftrightarrow> no_usable_query env batch_cuts" for w
    unfolding load_data_result finish_load_None by (simp add: load_cuts_empty)
  have "process_one_batch lib env ps batch_cuts writer =
          (fst (load_data lib env ps batch_cuts 0) @ [Log WARNING ''Raw data is empty.''], Inr writer)"
    if "no_usable_query env batch_cuts"
  proof -
    from that n[of 0] have "snd (load_data lib env ps batch_cuts 0) = Inr None" by simp
    then show ?thesis
      by (cases "load_data lib env ps batch_cuts 0") (simp add: process_one_batch_def)
  qed
  with e n show ?thesis by blast
qed

text \<open>
  A batch of one cut without its book is such a batch, with the trace shown; a batch with
  the example cut is not.
\<close>

theorem load_data_empty_iff_no_usable_query_witness:
  "no_usable_query example_env [missing_cut]
   \<and> snd (load_data example_lib example_env (get_params 50) [missing_cut] 0) = Inr None
   \<and> process_one_batch example_lib example_env (get_params 50) [missing_cut] []
       = ([Log DEBUG ''Worker[0] loading cuts and books'',
           Log WARNING ''Worker[0] Skipping cutB due to missing of reference book'',
           Log WARNING ''Raw data is empty.''], Inr [])
   \<and> \<not> no_usable_query example_env [example_cut]
   \<and> snd (load_data example_lib example_env (get_params 50) [example_cut] 0) \<noteq> Inr None"
proof -
  have a: "no_usable_query example_env [missing_cut]" by code_simp
  have b: "\<not> no_usable_query example_env [example_cut]" by code_simp
  have t: "fst (load_data example_lib example_env (get_params 50) [missing_cut] 0)
     = [Log DEBUG ''Worker[0] loading cuts and books'',
        Log WARNING ''Worker[0] Skipping cutB due to missing of reference book'']"
    by code_simp
  note T = load_data_empty_iff_no_usable_query[of example_lib example_env "get_params 50" _ 0 "[]"]
  from T[of "[missing_cut]"] a t T[of "[example_cut]"] b show ?thesis by simp
qed

text \<open>
  Claim C5. A cut whose reference file is not on disk is skipped: the result of
  \<open>load_data\<close> and the files it opens are those of the same batch without this cut (the
  other cuts keeping their indexes), the warning for the cut is in the trace, and no
  FileNotFoundError is raised.
\<close>

theorem load_data_skips_missing_file:
  assumes "\<not> isfile env (cut_text_path c)"
  shows "snd (load_data lib env ps (xs @ c # ys) w)
           = snd (load_data_from lib env ps (enumerate 0 xs @ enumerate (Suc (length xs)) ys) w)
     \<and> opened_files (fst (load_data lib env ps (xs @ c # ys) w))
           = opened_files (fst (load_data_from lib env ps (enumerate 0 xs @ enumerate (Suc (length xs)) ys) w))
     \<and> Log WARNING (skip_message w c) \<in> set (fst (load_data lib env ps (xs @ c # ys) w))
     \<and> snd (load_data lib env ps (xs @ c # ys) w) \<noteq> Inl FileNotFoundError"
proof -
  have en: "enumerate 0 (xs @ c # ys) = enumerate 0 xs @ (length xs, c) # enumerate (Suc (length xs)) ys"
    by (simp add: enumerate_append_eq)
  have m: "\<not> isfile env (cut_text_path (snd (length xs, c)))" using assms by simp
  have co: "core (load_cuts lib env ps w (enumerate 0 (xs @ c # ys)))
      = core (load_cuts lib env ps w (enumerate 0 xs @ enumerate (Suc (length xs)) ys))"
    unfolding en using m by (rule load_cuts_skip_missing)
  then have bp: "book_paths (load_cuts lib env ps w (enumerate 0 (xs @ c # ys)))
      = book_paths (load_cuts lib env ps w (enumerate 0 xs @ enumerate (Suc (length xs)) ys))"
    by (simp add: core_def)
  have 1: "snd (load_data lib env ps (xs @ c # ys) w)
           = snd (load_data_from lib env ps (enumerate 0 xs @ enumerate (Suc (length xs)) ys) w)"
    unfolding load_data_def load_data_from_eq bp using co by (rule finish_load_core)
  have 2: "opened_files (fst (load_data lib env ps (xs @ c # ys) w))
           = opened_files (fst (load_data_from lib env ps (enumerate 0 xs @ enumerate (Suc (length xs)) ys) w))"
    unfolding load_data_def load_data_opened bp ..
  have "(length xs, c) \<in> set (enumerate 0 (xs @ c # ys))" by (simp add: en)
  then have "Log WARNING (skip_message w c) \<in> set (logged (load_cuts lib env ps w (enumerate 0 (xs @ c # ys))))"
    using assms by (rule load_cuts_logged(2))
  then have 3: "Log WARNING (skip_message w c) \<in> set (fst (load_data lib env ps (xs @ c # ys) w))"
    unfolding load_data_def using load_data_logged by blast
  have 4: "snd (load_data lib env ps (xs @ c # ys) w) \<noteq> Inl FileNotFoundError"
    unfolding load_data_def by (rule load_data_no_FileNotFoundError)
  from 1 2 3 4 show ?thesis by blast
qed

text \<open>The hypothesis of C5 holds for the cut \<open>cutB\<close>, whose book is not among the files.\<close>

theorem load_data_skips_missing_file_witness:
  "\<not> isfile example_env (cut_text_path missing_cut)
   \<and> snd (load_data example_lib example_env (get_params 50) [missing_cut, example_cut] 0)
       = snd (load_data_from example_lib example_env (get_params 50) [(1, example_cut)] 0)
   \<and> opened_files (fst (load_data example_lib example_env (get_params 50) [missing_cut, example_cut] 0))
       = [''book.txt'']
   \<and> Log WARNING ''Worker[0] Skipping cutB due to missing of reference book''
       \<in> set (fst (load_data example_lib example_env (get_params 50) [missing_cut, example_cut] 0))
   \<and> snd (load_data example_lib example_env (get_params 50) [missing_cut, example_cut] 0)
       \<noteq> Inl FileNotFoundError"
proof -
  have m: "\<not> isfile example_env (cut_text_path missing_cut)" by code_simp
  have s: "skip_message 0 missing_cut = ''Worker[0] Skipping cutB due to missing of reference book''"
    by code_simp
  have o: "opened_files (fst (load_data_from example_lib example_env (get_params 50) [(1, example_cut)] 0))
      = [''book.txt'']"
    by code_simp
  from load_data_skips_missing_file[OF m, of example_lib "get_params 50" "[]" "[example_cut]" 0] m s o
  show ?thesis by auto
qed


lemma distinct_count_list: "distinct xs \<Longrightarrow> count_list xs p = (if p \<in> set xs then 1 else 0)"
  by (induction xs) auto

lemma books_order_paths:
  "distinct (books_order lib env ps batch_cuts)"
  "set (books_order lib env ps batch_cuts) = set (filter (isfile env) (map cut_text_path batch_cuts))"
  by (simp_all add: books_order_def set_iter_def load_cuts_paths)

lemma load_data_result_explicit:
  "snd (load_data lib env ps batch_cuts w) =
     (if query_documents lib env ps batch_cuts = [] then Inr None
      else if length (query_documents lib env ps batch_cuts)
                < length (st_doc_splits (build_sourced_text lib ps (query_documents lib env ps batch_cuts)
                     (map (\<lambda>p. from_str lib p (the (files env p)) (use_utf8 ps) (has_punctuation ps))
                        (books_order lib env ps batch_cuts))))
           then if query_tokens (query_documents lib env ps batch_cuts)
                     = st_doc_splits (build_sourced_text lib ps (query_documents lib env ps batch_cuts)
                         (map (\<lambda>p. from_str lib p (the (files env p)) (use_utf8 ps) (has_punctuation ps))
                            (books_order lib env ps batch_cuts)))
                       ! length (query_documents lib env ps batch_cuts)
                then Inr (Some
                  \<lparr>raw_num_query_tokens = query_tokens (query_documents lib env ps batch_cuts),
                   raw_cut_indexes = transcripts_cut_index (load_cuts lib env ps 0 (enumerate 0 batch_cuts)),
                   raw_sourced_text = build_sourced_text lib ps (query_documents lib env ps batch_cuts)
                     (map (\<lambda>p. from_str lib p (the (files env p)) (use_utf8 ps) (has_punctuation ps))
                        (books_order lib env ps batch_cuts))\<rparr>)
                else Inl AssertionError
           else Inl IndexError)"
proof -
  have num: "num_query_tokens (load_cuts lib env ps 0 (enumerate 0 batch_cuts))
      = query_tokens (query_documents lib env ps batch_cuts)"
    using load_cuts_counted[of lib env ps 0 "enumerate 0 batch_cuts"]
    by (simp add: counted_def query_documents_def)
  show ?thesis
    unfolding load_data_result
    by (simp add: finish_load_def Let_def num query_documents_def[symmetric])
qed

text \<open>
  Claim C6. The files that \<open>load_data\<close> opens are the paths cited by the cuts of the
  batch whose file is on disk, each exactly once, whatever the order of iteration of the
  set. There is one reference document per such path, built by \<open>from_str\<close> from the
  content of its file, and these documents are the books of \<open>load_data\<close>: its result is
  the empty dict when there is no query document, and otherwise the sourced text built from
  the query documents and exactly these books (or the error of the assertion on it).
\<close>

theorem load_data_reads_each_book_once:
  "distinct (books_order lib env ps batch_cuts)
   \<and> set (books_order lib env ps batch_cuts) = set (filter (isfile env) (map cut_text_path batch_cuts))
   \<and> opened_files (fst (load_data lib env ps batch_cuts w)) = books_order lib env ps batch_cuts
   \<and> (\<forall>p. count_list (opened_files (fst (load_data lib env ps batch_cuts w))) p
            = (if p \<in> set (filter (isfile env) (map cut_text_path batch_cuts)) then 1 else 0))
   \<and> (\<exists>books. load_books lib env ps (books_order lib env ps batch_cuts) [] []
                  = Inr (books, map Open_file (books_order lib env ps batch_cuts))
         \<and> length books = length (books_order lib env ps batch_cuts)
         \<and> (\<forall>k < length books. \<exists>text.
               files env (books_order lib env ps batch_cuts ! k) = Some text
               \<and> books ! k = from_str lib (books_order lib env ps batch_cuts ! k) text
                                (use_utf8 ps) (has_punctuation ps))
         \<and> snd (load_data lib env ps batch_cuts w) =
             (if query_documents lib env ps batch_cuts = [] then Inr None
              else if length (query_documents lib env ps batch_cuts)
                        < length (st_doc_splits
                            (build_sourced_text lib ps (query_documents lib env ps batch_cuts) books))
                   then if query_tokens (query_documents lib env ps batch_cuts)
                             = st_doc_splits
                                 (build_sourced_text lib ps (query_documents lib env ps batch_cuts) books)
                               ! length (query_documents lib env ps batch_cuts)
                        then Inr (Some
                          \<lparr>raw_num_query_tokens = query_tokens (query_documents lib env ps batch_cuts),
                           raw_cut_indexes =
                             transcripts_cut_index (load_cuts lib env ps 0 (enumerate 0 batch_cuts)),
                           raw_sourced_text =
                             build_sourced_text lib ps (query_documents lib env ps batch_cuts) books\<rparr>)
                        else Inl AssertionError
                   else Inl IndexError)
         \<and> (\<forall>raw. snd (load_data lib env ps batch_cuts w) = Inr (Some raw) \<longrightarrow>
               raw_sourced_text raw
                 = build_sourced_text lib ps (query_documents lib env ps batch_cuts) books))"
proof -
  note P = books_order_paths[of lib env ps batch_cuts]
  have o: "opened_files (fst (load_data lib env ps batch_cuts w)) = books_order lib env ps batch_cuts"
    unfolding load_data_def load_data_opened books_order_def
    by (simp add: load_cuts_core_fields(2)[of lib env ps w _ 0])
  have c: "count_list (opened_files (fst (load_data lib env ps batch_cuts w))) p
            = (if p \<in> set (filter (isfile env) (map cut_text_path batch_cuts)) then 1 else 0)" for p
    unfolding o using distinct_count_list[OF P(1), of p] P(2) by simp
  define books where "books = map (\<lambda>p. from_str lib p (the (files env p)) (use_utf8 ps) (has_punctuation ps))
            (books_order lib env ps batch_cuts)"
  have b: "load_books lib env ps (books_order lib env ps batch_cuts) [] []
                  = Inr (books, map Open_file (books_order lib env ps batch_cuts))"
    unfolding books_def by (rule books_order_loaded)
  have k: "\<exists>text. files env (books_order lib env ps batch_cuts ! k) = Some text
               \<and> books ! k = from_str lib (books_order lib env ps batch_cuts ! k) text
                                (use_utf8 ps) (has_punctuation ps)"
    if "k < length books" for k
  proof -
    from that have kl: "k < length (books_order lib env ps batch_cuts)" by (simp add: books_def)
    then have "books_order lib env ps batch_cuts ! k \<in> set (books_order lib env ps batch_cuts)"
      by simp
    then have "isfile env (books_order lib env ps batch_cuts ! k)"
      unfolding P(2) by simp
    then obtain t where "files env (books_order lib env ps batch_cuts ! k) = Some t"
      by (auto simp: isfile_def)
    then show ?thesis using kl by (simp add: books_def)
  qed
  have len: "length books = length (books_order lib env ps batch_cuts)" by (simp add: books_def)
  have r: "snd (load_data lib env ps batch_cuts w) =
             (if query_documents lib env ps batch_cuts = [] then Inr None
              else if length (query_documents lib env ps batch_cuts)
                        < length (st_doc_splits
                            (build_sourced_text lib ps (query_documents lib env ps batch_cuts) books))
                   then if query_tokens (query_documents lib env ps batch_cuts)
                             = st_doc_splits
                                 (build_sourced_text lib ps (query_documents lib env ps batch_cuts) books)
                               ! length (query_documents lib env ps batch_cuts)
                        then Inr (Some
                          \<lparr>raw_num_query_tokens = query_tokens (query_documents lib env ps batch_cuts),
                           raw_cut_indexes =
                             transcripts_cut_index (load_cuts lib env ps 0 (enumerate 0 batch_cuts)),
                           raw_sourced_text =
                             build_sourced_text lib ps (query_documents lib env ps batch_cuts) books\<rparr>)
                        else Inl AssertionError
                   else Inl IndexError)"
    unfolding books_def by (rule load_data_result_explicit)
  have s: "raw_sourced_text raw = build_sourced_text lib ps (query_documents lib env ps batch_cuts) books"
    if "snd (load_data lib env ps batch_cuts w) = Inr (Some raw)" for raw
    using that unfolding r by (auto split: if_splits)
  from P o c b k len r s show ?thesis by blast
qed

text \<open>
  Two cuts cite \<open>book.txt\<close> and one cites a missing file: \<open>book.txt\<close> is opened once,
  and the sourced text that \<open>load_data\<close> returns for the two query documents has this
  one book as its only reference document.
\<close>

theorem load_data_reads_each_book_once_witness:
  "opened_files (fst (load_data example_lib example_env (get_params 50)
                        [example_cut, missing_cut, example_cut] 0)) = [''book.txt'']
   \<and> count_list (opened_files (fst (load_data example_lib example_env (get_params 50)
                        [example_cut, missing_cut, example_cut] 0))) ''book.txt'' = 1
   \<and> count_list (opened_files (fst (load_data example_lib example_env (get_params 50)
                        [example_cut, missing_cut, example_cut] 0))) ''lost.txt'' = 0
   \<and> (\<exists>books. load_books example_lib example_env (get_params 50) [''book.txt''] [] []
                  = Inr (books, [Open_file ''book.txt''])
         \<and> books = [\<lparr>ts_name = ''book.txt'', ts_binary_text = map of_char ''Hi, you.''\<rparr>]
         \<and> (\<exists>raw. snd (load_data example_lib example_env (get_params 50)
                           [example_cut, missing_cut, example_cut] 0) = Inr (Some raw)
                \<and> raw_sourced_text raw
                    = build_sourced_text example_lib (get_params 50)
                        (query_documents example_lib example_env (get_params 50)
                           [example_cut, missing_cut, example_cut]) books
                \<and> source_books (st_sources (raw_sourced_text raw)) = books
                \<and> length (query_documents example_lib example_env (get_params 50)
                             [example_cut, missing_cut, example_cut]) = 2))"
proof -
  have o: "books_order example_lib example_env (get_params 50) [example_cut, missing_cut, example_cut]
      = [''book.txt'']"
    by code_simp
  have f: "set (filter (isfile example_env) (map cut_text_path [example_cut, missing_cut, example_cut]))
      = {''book.txt''}"
    by code_simp
  have t: "files example_env ''book.txt'' = Some ''Hi, you.''" by code_simp
  have fs: "from_str example_lib ''book.txt'' ''Hi, you.'' (use_utf8 (get_params 50)) (has_punctuation (get_params 50))
      = \<lparr>ts_name = ''book.txt'', ts_binary_text = map of_char ''Hi, you.''\<rparr>"
    by (simp add: example_lib_def)
  have "case snd (load_data example_lib example_env (get_params 50)
                    [example_cut, missing_cut, example_cut] 0) of
          Inr (Some raw) \<Rightarrow> source_books (st_sources (raw_sourced_text raw))
              = [\<lparr>ts_name = ''book.txt'', ts_binary_text = map of_char ''Hi, you.''\<rparr>]
        | _ \<Rightarrow> False"
    by code_simp
  then obtain raw where raw: "snd (load_data example_lib example_env (get_params 50)
                    [example_cut, missing_cut, example_cut] 0) = Inr (Some raw)"
      "source_books (st_sources (raw_sourced_text raw))
              = [\<lparr>ts_name = ''book.txt'', ts_binary_text = map of_char ''Hi, you.''\<rparr>]"
    by (auto split: sum.splits option.splits)
  have q: "length (query_documents example_lib example_env (get_params 50)
                             [example_cut, missing_cut, example_cut]) = 2"
    by code_simp
  note T = load_data_reads_each_book_once[of example_lib example_env "get_params 50"
      "[example_cut, missing_cut, example_cut]" 0, unfolded o f]
  from T obtain books where b: "load_books example_lib example_env (get_params 50) [''book.txt''] [] []
                  = Inr (books, map Open_file [''book.txt''])" "length books = length [''book.txt'']"
     "\<forall>k < length books. \<exists>text. files example_env ([''book.txt''] ! k) = Some text
               \<and> books ! k = from_str example_lib ([''book.txt''] ! k) text
                     (use_utf8 (get_params 50)) (has_punctuation (get_params 50))"
     "\<forall>raw. snd (load_data example_lib example_env (get_params 50)
                    [example_cut, missing_cut, example_cut] 0) = Inr (Some raw) \<longrightarrow>
               raw_sourced_text raw
                 = build_sourced_text example_lib (get_params 50)
                     (query_documents example_lib example_env (get_params 50)
                        [example_cut, missing_cut, example_cut]) books"
    by blast
  from b(2,3) t fs have "books ! 0 = \<lparr>ts_name = ''book.txt'', ts_binary_text = map of_char ''Hi, you.''\<rparr>"
    by force
  with b(2) have be: "books = [\<lparr>ts_name = ''book.txt'', ts_binary_text = map of_char ''Hi, you.''\<rparr>]"
    by (cases books) auto
  from b(4) raw(1) have rs: "raw_sourced_text raw
                 = build_sourced_text example_lib (get_params 50)
                     (query_documents example_lib example_env (get_params 50)
                        [example_cut, missing_cut, example_cut]) books"
    by blast
  have 4: "\<exists>books. load_books example_lib example_env (get_params 50) [''book.txt''] [] []
                  = Inr (books, [Open_file ''book.txt''])
         \<and> books = [\<lparr>ts_name = ''book.txt'', ts_binary_text = map of_char ''Hi, you.''\<rparr>]
         \<and> (\<exists>raw. snd (load_data example_lib example_env (get_params 50)
                           [example_cut, missing_cut, example_cut] 0) = Inr (Some raw)
                \<and> raw_sourced_text raw
                    = build_sourced_text example_lib (get_params 50)
                        (query_documents example_lib example_env (get_params 50)
                           [example_cut, missing_cut, example_cut]) books
                \<and> source_books (st_sources (raw_sourced_text raw)) = books
                \<and> length (query_documents example_lib example_env (get_params 50)
                             [example_cut, missing_cut, example_cut]) = 2)"
    using b(1) be rs raw q by (intro exI[of _ books] conjI exI[of _ raw]) simp_all
  from T have 1: "opened_files (fst (load_data example_lib example_env (get_params 50)
                        [example_cut, missing_cut, example_cut] 0)) = [''book.txt'']" by blast
  from T have c: "\<forall>p. count_list (opened_files (fst (load_data example_lib example_env (get_params 50)
                        [example_cut, missing_cut, example_cut] 0))) p
            = (if p \<in> {''book.txt''} then 1 else 0)" by blast
  from c have 2: "count_list (opened_files (fst (load_data example_lib example_env (get_params 50)
                        [example_cut, missing_cut, example_cut] 0))) ''book.txt'' = 1" by simp
  from c have 3: "count_list (opened_files (fst (load_data example_lib example_env (get_params 50)
                        [example_cut, missing_cut, example_cut] 0))) ''lost.txt'' = 0" by simp
  from 1 2 3 4 show ?thesis by blast
qed

subsection \<open>The sourced text\<close>

lemma spec_tokens:
  "st_binary_text (append_texts_spec (texts_to_sourced_texts_spec upper srcs up))
     = concat (map (\<lambda>s. if up then map upper (source_tokens s) else source_tokens s) srcs)"
  by (simp add: append_texts_spec_def texts_to_sourced_texts_spec_def comp_def)

lemma spec_query_tokens:
  "st_binary_text (append_texts_spec (texts_to_sourced_texts_spec upper (map Query ts) up))
     = concat (map (\<lambda>t. if up then map upper (tr_binary_text t) else tr_binary_text t) ts)"
  by (cases up) (simp_all add: spec_tokens comp_def)

lemma spec_book_tokens:
  "st_binary_text (append_texts_spec (texts_to_sourced_texts_spec upper (map Book bs) up))
     = concat (map (\<lambda>b. if up then map upper (ts_binary_text b) else ts_binary_text b) bs)"
  by (cases up) (simp_all add: spec_tokens comp_def)

lemma length_query_tokens:
  "length (concat (map (\<lambda>t. if up then map upper (tr_binary_text t) else tr_binary_text t) ts))
     = query_tokens ts"
  by (induction ts) (simp_all add: query_tokens_def)

text \<open>
  Claim C7. In the sourced text that \<open>load_data\<close> returns, the filter is applied to the
  concatenated books and to nothing else. With \<open>append_texts\<close> and
  \<open>texts_to_sourced_texts\<close> as the spec describes them, and for every \<open>filter_texts\<close>,
  the first \<open>num_query_tokens\<close> tokens are the concatenation of the tokens of the
  transcripts (in uppercase if configured), unfiltered; the rest is the filtered text of
  the books, which for the filter of the spec is the tokens of the books that are not
  punctuation.
\<close>

theorem load_data_filters_books_only:
  assumes "snd (load_data lib env ps batch_cuts w) = Inr (Some raw)"
    and "append_texts lib = append_texts_spec"
    and "texts_to_sourced_texts lib = texts_to_sourced_texts_spec upper"
  shows "take (raw_num_query_tokens raw) (st_binary_text (raw_sourced_text raw))
           = concat (map (\<lambda>t. if use_uppercase ps then map upper (tr_binary_text t) else tr_binary_text t)
                       (query_documents lib env ps batch_cuts))
     \<and> (\<exists>books opened.
           load_books lib env ps (books_order lib env ps batch_cuts) [] [] = Inr (books, opened)
           \<and> raw_sourced_text raw =
               append_texts lib
                 [append_texts lib
                    (texts_to_sourced_texts lib (map Query (query_documents lib env ps batch_cuts))
                       (use_uppercase ps)),
                  filter_texts lib
                    (append_texts lib (texts_to_sourced_texts lib (map Book books) (use_uppercase ps)))
                    (\<lambda>c. \<not> is_punctuation lib c)]
           \<and> drop (raw_num_query_tokens raw) (st_binary_text (raw_sourced_text raw))
               = st_binary_text
                   (filter_texts lib
                      (append_texts lib (texts_to_sourced_texts lib (map Book books) (use_uppercase ps)))
                      (\<lambda>c. \<not> is_punctuation lib c))
           \<and> (filter_texts lib = filter_texts_spec \<longrightarrow>
                drop (raw_num_query_tokens raw) (st_binary_text (raw_sourced_text raw))
                  = filter (\<lambda>c. \<not> is_punctuation lib c)
                      (concat (map (\<lambda>b. if use_uppercase ps then map upper (ts_binary_text b)
                                          else ts_binary_text b) books))))"
proof -
  define st where "st = load_cuts lib env ps 0 (enumerate 0 batch_cuts)"
  define books where "books = map (\<lambda>p. from_str lib p (the (files env p)) (use_utf8 ps) (has_punctuation ps))
            (books_order lib env ps batch_cuts)"
  define qs where "qs = append_texts_spec (texts_to_sourced_texts_spec upper (map Query (transcripts st)) (use_uppercase ps))"
  define bs where "bs = filter_texts lib
      (append_texts_spec (texts_to_sourced_texts_spec upper (map Book books) (use_uppercase ps)))
      (\<lambda>c. \<not> is_punctuation lib c)"
  have num: "num_query_tokens st = query_tokens (transcripts st)"
    using load_cuts_counted[of lib env ps 0 "enumerate 0 batch_cuts"] by (simp add: st_def counted_def)
  have qd: "query_documents lib env ps batch_cuts = transcripts st"
    by (simp add: query_documents_def st_def)
  from assms(1) have S: "snd (finish_load lib ps w st books []) = Inr (Some raw)"
    by (simp add: load_data_result st_def books_def)
  note F = finish_load_Some[OF S]
  have np: "is_not_punc lib = (\<lambda>c. \<not> is_punctuation lib c)"
    by (simp add: is_not_punc_def fun_eq_iff)
  have src: "raw_sourced_text raw = append_texts_spec [qs, bs]"
    using F by (simp add: build_sourced_text_def Let_def assms(2,3) qs_def bs_def np)
  have n: "raw_num_query_tokens raw = length (st_binary_text qs)"
    using F num by (simp add: qs_def spec_query_tokens length_query_tokens)
  have bt: "st_binary_text (raw_sourced_text raw) = st_binary_text qs @ st_binary_text bs"
    by (simp add: src append_texts_spec_def)
  have 1: "take (raw_num_query_tokens raw) (st_binary_text (raw_sourced_text raw))
           = concat (map (\<lambda>t. if use_uppercase ps then map upper (tr_binary_text t) else tr_binary_text t)
                       (query_documents lib env ps batch_cuts))"
    by (simp add: bt n qd) (simp add: qs_def spec_query_tokens)
  have 2: "load_books lib env ps (books_order lib env ps batch_cuts) [] []
      = Inr (books, map Open_file (books_order lib env ps batch_cuts))"
    unfolding books_def by (rule books_order_loaded)
  have 3: "raw_sourced_text raw =
               append_texts lib
                 [append_texts lib
                    (texts_to_sourced_texts lib (map Query (query_documents lib env ps batch_cuts))
                       (use_uppercase ps)),
                  filter_texts lib
                    (append_texts lib (texts_to_sourced_texts lib (map Book books) (use_uppercase ps)))
                    (\<lambda>c. \<not> is_punctuation lib c)]"
    by (simp add: src assms(2,3) qs_def bs_def qd)
  have 4: "drop (raw_num_query_tokens raw) (st_binary_text (raw_sourced_text raw))
               = st_binary_text
                   (filter_texts lib
                      (append_texts lib (texts_to_sourced_texts lib (map Book books) (use_uppercase ps)))
                      (\<lambda>c. \<not> is_punctuation lib c))"
    by (simp add: bt n assms(2,3) bs_def)
  have 5: "drop (raw_num_query_tokens raw) (st_binary_text (raw_sourced_text raw))
                  = filter (\<lambda>c. \<not> is_punctuation lib c)
                      (concat (map (\<lambda>b. if use_uppercase ps then map upper (ts_binary_text b)
                                          else ts_binary_text b) books))"
    if "filter_texts lib = filter_texts_spec"
    unfolding 4 assms(2,3) that by (simp add: filter_texts_spec_def spec_book_tokens)
  from 1 2 3 4 5 show ?thesis by blast
qed

text \<open>
  The hypotheses of C7 hold for the example: the query keeps its punctuation token 33, the
  book \<open>Hi, you.\<close> loses its comma and its full stop.
\<close>

theorem load_data_filters_books_only_witness:
  "\<exists>raw. snd (load_data example_lib example_env (get_params 50) [example_cut] 0) = Inr (Some raw)
     \<and> append_texts example_lib = append_texts_spec
     \<and> texts_to_sourced_texts example_lib = texts_to_sourced_texts_spec example_upper
     \<and> is_punctuation example_lib 33
     \<and> take (raw_num_query_tokens raw) (st_binary_text (raw_sourced_text raw)) = [72, 73, 33]
     \<and> drop (raw_num_query_tokens raw) (st_binary_text (raw_sourced_text raw)) = [72, 73, 32, 89, 79, 85]"
proof -
  have "case snd (load_data example_lib example_env (get_params 50) [example_cut] 0) of
          Inr (Some raw) \<Rightarrow> drop (raw_num_query_tokens raw) (st_binary_text (raw_sourced_text raw))
                              = [72, 73, 32, 89, 79, 85]
        | _ \<Rightarrow> False"
    by code_simp
  then obtain raw where r: "snd (load_data example_lib example_env (get_params 50) [example_cut] 0) = Inr (Some raw)"
      "drop (raw_num_query_tokens raw) (st_binary_text (raw_sourced_text raw)) = [72, 73, 32, 89, 79, 85]"
    by (auto split: sum.splits option.splits)
  have a: "append_texts example_lib = append_texts_spec"
    and t: "texts_to_sourced_texts example_lib = texts_to_sourced_texts_spec example_upper"
    and p: "is_punctuation example_lib 33"
    by (simp_all add: example_lib_def)
  have q: "concat (map (\<lambda>t. if use_uppercase (get_params 50) then map example_upper (tr_binary_text t)
                               else tr_binary_text t)
             (query_documents example_lib example_env (get_params 50) [example_cut])) = [72, 73, 33]"
    by code_simp
  from load_data_filters_books_only[OF r(1) a t]
  have "take (raw_num_query_tokens raw) (st_binary_text (raw_sourced_text raw)) = [72, 73, 33]"
    unfolding q by blast
  with r a t p show ?thesis by blast
qed

section \<open>Two runs on the same batch\<close>













end
